theory Spec2Isabelle
  imports Complex_Main "HOL-Library.Word"
begin

section \<open>Dense matrices\<close>

text \<open>
  \<^verbatim>\<open>neuron.c\<close> works on the \<^verbatim>\<open>matrix_double\<close> of \<^verbatim>\<open>matrix.h\<close>: a struct with the
  fields \<^verbatim>\<open>nrows\<close>, \<^verbatim>\<open>ncols\<close> and \<^verbatim>\<open>data\<close>, the entry of row \<open>i\<close> and column \<open>j\<close> being
  \<^verbatim>\<open>data[i][j]\<close>. The entries are of an arbitrary type \<open>'a\<close>. Where the code computes
  with them only the operation symbols \<open>0\<close>, \<open>1\<close>, \<open>+\<close>, \<open>*\<close>, \<open>/\<close> and unary \<open>-\<close> are
  used, with no law assumed of them, so every result holds for the machine's doubles
  however they round. Where a result does depend on the rounding, as the range of the
  output does, the entries are the doubles of the section on double precision.
  Persistence takes an entry as the 64 bits of its representation.
  C's \<^verbatim>\<open>int\<close> is \<^typ>\<open>int\<close>; the places where its 32 bits matter say so.
\<close>

record 'a matrix_double =
  nrows :: int
  ncols :: int
  data :: "'a list list"

text \<open>
  What can end an operation early. \<open>ShapeError\<close> is the error of the matrix product.
  \<open>FreeUnassigned\<close> and \<open>IndexOutOfBounds\<close> are not reported by the program: they mark
  the points at which \<^verbatim>\<open>network_backprop\<close> releases a matrix that was never assigned or
  indexes an array beyond its rows, where C leaves the behaviour undefined.
\<close>

datatype error = ShapeError | FreeUnassigned | IndexOutOfBounds

text \<open>
  Modelled from the spec: the functions of \<^verbatim>\<open>matrix.h\<close> are not part of the sources; the
  spec's matrix collaborator contract (section 6) lists them: "construct(rows, cols)
  zero/uninitialized matrix; element get/set by (row, col); column extract-as-array /
  set-from-array; deep copy; elementwise unary map; matrix product (rows/cols must be
  compatible, else error); sub-block extraction by a (top-left, bottom-right) coordinate
  pair; in-place column interchange; release". The value \<open>u\<close> stands for the contents of
  fresh storage. Releasing a matrix changes no value here; what the cleanup of
  \<^verbatim>\<open>network_backprop\<close> releases and indexes is followed in the section on training.
\<close>

definition alloc_matrix_double :: "'a \<Rightarrow> int \<Rightarrow> int \<Rightarrow> 'a matrix_double" where
  "alloc_matrix_double u r c =
     \<lparr>nrows = r, ncols = c, data = replicate (nat r) (replicate (nat c) u)\<rparr>"

text \<open>The assignment \<^verbatim>\<open>m.data[i][j] = v\<close>. The C is undefined outside the allocation.\<close>

definition set_entry :: "'a matrix_double \<Rightarrow> nat \<Rightarrow> nat \<Rightarrow> 'a \<Rightarrow> 'a matrix_double" where
  "set_entry m i j v = m\<lparr>data := (data m)[i := (data m ! i)[j := v]]\<rparr>"

definition copy_matrix_double :: "'a matrix_double \<Rightarrow> 'a matrix_double" where
  "copy_matrix_double m = m"

text \<open>Modelled from the spec: "column extract-as-array": column \<open>c\<close> of \<open>m\<close>, top down.\<close>

definition copy_col_matrix_double :: "'a matrix_double \<Rightarrow> nat \<Rightarrow> 'a list" where
  "copy_col_matrix_double m c = map (\<lambda>i. data m ! i ! c) [0..<nat (nrows m)]"

text \<open>Modelled from the spec: "column set-from-array": column \<open>c\<close> of \<open>m\<close> becomes \<open>arr\<close>.\<close>

definition set_col_matrix_double :: "'a matrix_double \<Rightarrow> 'a list \<Rightarrow> nat \<Rightarrow> 'a matrix_double" where
  "set_col_matrix_double m arr c =
     m\<lparr>data := map (\<lambda>i. (data m ! i)[c := arr ! i]) [0..<nat (nrows m)]\<rparr>"

text \<open>
  Modelled from the spec: "matrix product (rows/cols must be compatible, else error)".
  Each entry is accumulated from \<open>0\<close> along increasing \<open>k\<close>.
\<close>

definition matrix_product_matrix_double ::
  "'a::{zero,plus,times} matrix_double \<Rightarrow> 'a matrix_double \<Rightarrow> error + 'a matrix_double" where
  "matrix_product_matrix_double x y =
     (if ncols x \<noteq> nrows y then Inl ShapeError
      else Inr \<lparr>nrows = nrows x, ncols = ncols y,
                data = map (\<lambda>i. map (\<lambda>j. fold (\<lambda>k acc. acc + data x ! i ! k * data y ! k ! j)
                                            [0..<nat (ncols x)] 0)
                                  [0..<nat (ncols y)])
                           [0..<nat (nrows x)]\<rparr>)"

record coordinate =
  c_row :: int
  c_col :: int

record pair_coordinates =
  sec_a :: coordinate
  sec_b :: coordinate

text \<open>
  Modelled from the spec: "sub-block extraction by a (top-left, bottom-right) coordinate
  pair". \<^verbatim>\<open>network_SGD\<close> passes the row count as the bottom row and the column after the
  batch as the right column, so the bottom-right corner is exclusive.
\<close>

definition extract_section_matrix_double ::
  "'a matrix_double \<Rightarrow> pair_coordinates \<Rightarrow> 'a matrix_double" where
  "extract_section_matrix_double m s =
     \<lparr>nrows = c_row (sec_b s) - c_row (sec_a s),
      ncols = c_col (sec_b s) - c_col (sec_a s),
      data = map (\<lambda>i. map (\<lambda>j. data m ! i ! j) [nat (c_col (sec_a s))..<nat (c_col (sec_b s))])
                 [nat (c_row (sec_a s))..<nat (c_row (sec_b s))]\<rparr>"

text \<open>Modelled from the spec: "in-place column interchange" of the columns \<open>i\<close> and \<open>j\<close>.\<close>

definition interchange_cols_matrix_double :: "'a matrix_double \<Rightarrow> int \<Rightarrow> int \<Rightarrow> 'a matrix_double" where
  "interchange_cols_matrix_double m i j =
     m\<lparr>data := map (\<lambda>r. r[nat i := r ! nat j, nat j := r ! nat i]) (data m)\<rparr>"

text \<open>A matrix as the allocator makes it: \<open>nrows\<close> rows of \<open>ncols\<close> entries each.\<close>

definition wf_matrix :: "'a matrix_double \<Rightarrow> bool" where
  "wf_matrix m \<longleftrightarrow>
     length (data m) = nat (nrows m) \<and> list_all (\<lambda>r. length r = nat (ncols m)) (data m)"

section \<open>Networks\<close>

record 'a network =
  n_layers :: int
  net_structure :: "int list"
  weights :: "'a matrix_double list"
  biases :: "'a matrix_double list"

text \<open>
  \<^verbatim>\<open>copy_array_int(n, src, dst)\<close> is not part of the sources either; it is taken to copy
  the first \<open>n\<close> entries of \<open>src\<close>.
\<close>

definition copy_array_int :: "int \<Rightarrow> int list \<Rightarrow> int list" where
  "copy_array_int n src = take (nat n) src"

text \<open>
  \<^verbatim>\<open>create_network\<close>: the loop assigns \<^verbatim>\<open>net.biases[i]\<close> and \<^verbatim>\<open>net.weights[i]\<close> for every
  \<open>i\<close> from \<open>0\<close> to \<open>n - 2\<close>. The function has no check and no result but the struct.
\<close>

definition create_network :: "'a \<Rightarrow> int \<Rightarrow> int list \<Rightarrow> 'a network" where
  "create_network u n ns =
     \<lparr>n_layers = n,
      net_structure = copy_array_int n ns,
      weights = map (\<lambda>i. alloc_matrix_double u (ns ! (i + 1)) (ns ! i)) [0..<nat (n - 1)],
      biases = map (\<lambda>i. alloc_matrix_double u (ns ! (i + 1)) 1) [0..<nat (n - 1)]\<rparr>"

section \<open>Forward pass\<close>

text \<open>
  \<^verbatim>\<open>sigma\<close> is \<^verbatim>\<open>1 / (1 + exp(-x))\<close>; the parameter \<open>ex\<close> stands for the \<^verbatim>\<open>exp\<close> of the C
  library.
\<close>

definition sigma :: "('a \<Rightarrow> 'a) \<Rightarrow> 'a::{one,plus,uminus,inverse} \<Rightarrow> 'a" where
  "sigma ex x = 1 / (1 + ex (- x))"

definition vectorized_sigma ::
  "('a \<Rightarrow> 'a) \<Rightarrow> 'a::{one,plus,uminus,inverse} matrix_double \<Rightarrow> 'a matrix_double" where
  "vectorized_sigma ex m =
     m\<lparr>data := map (\<lambda>i. map (\<lambda>j. sigma ex (data m ! i ! j)) [0..<nat (ncols m)])
                    [0..<nat (nrows m)]\<rparr>"

text \<open>
  One round of the layer loop, which \<^verbatim>\<open>feedforward\<close> and \<^verbatim>\<open>network_backprop\<close> share: the
  weighted inputs \<^verbatim>\<open>zs\<close> are the product of the layer's weights with the activations
  before it, and the new activations are a copy of \<^verbatim>\<open>zs\<close> put through
  \<^verbatim>\<open>vectorized_sigma\<close>. A shape error of the product ends the operation.
\<close>

definition forward_step ::
  "('a \<Rightarrow> 'a) \<Rightarrow> 'a::{zero,one,plus,times,uminus,inverse} matrix_double \<Rightarrow> 'a matrix_double
     \<Rightarrow> error + 'a matrix_double \<times> 'a matrix_double" where
  "forward_step ex w activation =
     (case matrix_product_matrix_double w activation of
        Inl e \<Rightarrow> Inl e
      | Inr zs \<Rightarrow> Inr (zs, vectorized_sigma ex (copy_matrix_double zs)))"

definition feedforward ::
  "'a \<Rightarrow> ('a \<Rightarrow> 'a) \<Rightarrow> 'a::{zero,one,plus,times,uminus,inverse} network \<Rightarrow> 'a list
     \<Rightarrow> error + 'a list" where
  "feedforward u ex net input =
     (let activation =
            set_col_matrix_double (alloc_matrix_double u (net_structure net ! 0) 1) input 0
      in case fold (\<lambda>l r. case r of
                             Inl e \<Rightarrow> Inl e
                           | Inr act \<Rightarrow> map_sum id snd (forward_step ex (weights net ! (l - 1)) act))
                   [1..<nat (n_layers net)] (Inr activation) of
           Inl e \<Rightarrow> Inl e
         | Inr act \<Rightarrow> Inr (copy_col_matrix_double act 0))"

text \<open>
  The forward pass in the words of the spec, on plain vectors: \<open>a\<^sub>0\<close> is the input, and
  \<open>a\<^sub>l\<close> is the sigmoid, entry by entry, of the product of the weight matrix \<open>l - 1\<close> with
  \<open>a\<^bsub>l-1\<^esub>\<close>. No bias occurs in it.
\<close>

definition mat_vec :: "'a::{zero,plus,times} list list \<Rightarrow> 'a list \<Rightarrow> 'a list" where
  "mat_vec rows v = map (\<lambda>r. foldl (\<lambda>acc (w, x). acc + w * x) 0 (zip r v)) rows"

fun spec_activation ::
  "('a \<Rightarrow> 'a) \<Rightarrow> 'a::{zero,one,plus,times,uminus,inverse} matrix_double list \<Rightarrow> 'a list \<Rightarrow> nat
     \<Rightarrow> 'a list" where
  "spec_activation ex ws input 0 = input"
| "spec_activation ex ws input (Suc l) =
     map (sigma ex) (mat_vec (data (ws ! l)) (spec_activation ex ws input l))"

text \<open>
  The networks of the spec's data model: at least two layers, positive layer sizes, and
  weights and biases of the shapes the layer sizes prescribe.
\<close>

definition valid_network :: "'a network \<Rightarrow> bool" where
  "valid_network net \<longleftrightarrow>
     2 \<le> n_layers net
   \<and> length (net_structure net) = nat (n_layers net)
   \<and> list_all (\<lambda>s. 0 < s) (net_structure net)
   \<and> length (weights net) = nat (n_layers net - 1)
   \<and> length (biases net) = nat (n_layers net - 1)
   \<and> list_all (\<lambda>l. wf_matrix (weights net ! l)
                   \<and> nrows (weights net ! l) = net_structure net ! (l + 1)
                   \<and> ncols (weights net ! l) = net_structure net ! l
                   \<and> wf_matrix (biases net ! l)
                   \<and> nrows (biases net ! l) = net_structure net ! (l + 1)
                   \<and> ncols (biases net ! l) = 1)
               [0..<nat (n_layers net - 1)]"

definition colvec :: "'a list \<Rightarrow> 'a matrix_double" where
  "colvec v = \<lparr>nrows = int (length v), ncols = 1, data = map (\<lambda>x. [x]) v\<rparr>"

section \<open>Double precision\<close>

text \<open>
  The entries of the matrices are C \<^verbatim>\<open>double\<close>s. Their arithmetic is taken as IEEE 754
  binary64 with every operation rounded to the nearest value, ties to the even one, and
  evaluated in double precision. A value is a finite real number, one of the two
  infinities or not a number; \<open>Finite\<close> also carries the reals that no double holds, and
  the operations return doubles from them all the same. The sign of a zero is not kept,
  and a division of a number other than zero by zero takes the zero as positive.

  \<open>round_even\<close> is the nearest integer, the even one of two equally near. \<open>fl\<close> rounds a
  real number to \<open>53\<close> significant bits, with the exponent not below \<open>-1022\<close> (so that
  small numbers lose bits gradually) and with an infinity for a result of magnitude
  \<open>2 ^ 1024\<close> or more.
\<close>

datatype binary64 = Finite real | PlusInf | MinusInf | NaN

definition round_even :: "real \<Rightarrow> int" where
  "round_even y =
     (let f = \<lfloor>y\<rfloor>; d = y - of_int f
      in if d < 1 / 2 then f else if 1 / 2 < d then f + 1 else if even f then f else f + 1)"

definition fl :: "real \<Rightarrow> binary64" where
  "fl x =
     (if x = 0 then Finite 0
      else let e = max \<lfloor>log 2 \<bar>x\<bar>\<rfloor> (- 1022);
               r = of_int (round_even (\<bar>x\<bar> * 2 powr of_int (52 - e))) * 2 powr of_int (e - 52)
           in if 2 ^ 1024 \<le> r then (if 0 < x then PlusInf else MinusInf)
              else Finite (if 0 < x then r else - r))"

fun neg_binary64 :: "binary64 \<Rightarrow> binary64" where
  "neg_binary64 (Finite a) = Finite (- a)"
| "neg_binary64 PlusInf = MinusInf"
| "neg_binary64 MinusInf = PlusInf"
| "neg_binary64 NaN = NaN"

fun add_binary64 :: "binary64 \<Rightarrow> binary64 \<Rightarrow> binary64" where
  "add_binary64 NaN y = NaN"
| "add_binary64 x NaN = NaN"
| "add_binary64 (Finite a) (Finite b) = fl (a + b)"
| "add_binary64 PlusInf MinusInf = NaN"
| "add_binary64 MinusInf PlusInf = NaN"
| "add_binary64 PlusInf y = PlusInf"
| "add_binary64 x PlusInf = PlusInf"
| "add_binary64 MinusInf y = MinusInf"
| "add_binary64 x MinusInf = MinusInf"

fun mul_binary64 :: "binary64 \<Rightarrow> binary64 \<Rightarrow> binary64" where
  "mul_binary64 NaN y = NaN"
| "mul_binary64 x NaN = NaN"
| "mul_binary64 (Finite a) (Finite b) = fl (a * b)"
| "mul_binary64 (Finite a) y = (if a = 0 then NaN else if 0 < a then y else neg_binary64 y)"
| "mul_binary64 x (Finite b) = (if b = 0 then NaN else if 0 < b then x else neg_binary64 x)"
| "mul_binary64 PlusInf y = y"
| "mul_binary64 MinusInf y = neg_binary64 y"

fun div_binary64 :: "binary64 \<Rightarrow> binary64 \<Rightarrow> binary64" where
  "div_binary64 NaN y = NaN"
| "div_binary64 x NaN = NaN"
| "div_binary64 (Finite a) (Finite b) =
     (if b = 0 then (if a = 0 then NaN else if 0 < a then PlusInf else MinusInf)
      else fl (a / b))"
| "div_binary64 (Finite a) y = Finite 0"
| "div_binary64 x (Finite b) = (if 0 \<le> b then x else neg_binary64 x)"
| "div_binary64 x y = NaN"

fun le_binary64 :: "binary64 \<Rightarrow> binary64 \<Rightarrow> bool" where
  "le_binary64 NaN y \<longleftrightarrow> False"
| "le_binary64 x NaN \<longleftrightarrow> False"
| "le_binary64 (Finite a) (Finite b) \<longleftrightarrow> a \<le> b"
| "le_binary64 MinusInf y \<longleftrightarrow> True"
| "le_binary64 x PlusInf \<longleftrightarrow> True"
| "le_binary64 x y \<longleftrightarrow> False"

fun lt_binary64 :: "binary64 \<Rightarrow> binary64 \<Rightarrow> bool" where
  "lt_binary64 NaN y \<longleftrightarrow> False"
| "lt_binary64 x NaN \<longleftrightarrow> False"
| "lt_binary64 (Finite a) (Finite b) \<longleftrightarrow> a < b"
| "lt_binary64 PlusInf y \<longleftrightarrow> False"
| "lt_binary64 x MinusInf \<longleftrightarrow> False"
| "lt_binary64 x y \<longleftrightarrow> True"

instantiation binary64 :: "{zero,one,plus,times,uminus,inverse,ord}"
begin

definition zero_binary64 :: binary64 where
  "zero_binary64 = Finite 0"

definition one_binary64 :: binary64 where
  "one_binary64 = Finite 1"

definition uminus_binary64 :: "binary64 \<Rightarrow> binary64" where
  "uminus_binary64 = neg_binary64"

definition plus_binary64 :: "binary64 \<Rightarrow> binary64 \<Rightarrow> binary64" where
  "plus_binary64 = add_binary64"

definition times_binary64 :: "binary64 \<Rightarrow> binary64 \<Rightarrow> binary64" where
  "times_binary64 = mul_binary64"

definition divide_binary64 :: "binary64 \<Rightarrow> binary64 \<Rightarrow> binary64" where
  "divide_binary64 = div_binary64"

definition inverse_binary64 :: "binary64 \<Rightarrow> binary64" where
  "inverse_binary64 = div_binary64 (Finite 1)"

definition less_eq_binary64 :: "binary64 \<Rightarrow> binary64 \<Rightarrow> bool" where
  "less_eq_binary64 = le_binary64"

definition less_binary64 :: "binary64 \<Rightarrow> binary64 \<Rightarrow> bool" where
  "less_binary64 = lt_binary64"

instance ..

end

text \<open>
  The \<^verbatim>\<open>exp\<close> of the C library, as the correctly rounded exponential. The theorems about
  every network take the exponential as a parameter and ask of it only what they need.
\<close>

definition exp_binary64 :: "binary64 \<Rightarrow> binary64" where
  "exp_binary64 x =
     (case x of Finite a \<Rightarrow> fl (exp a) | PlusInf \<Rightarrow> PlusInf | MinusInf \<Rightarrow> Finite 0 | NaN \<Rightarrow> NaN)"


section \<open>Random parameters\<close>

text \<open>
  \<^verbatim>\<open>set_random_weights_biases\<close> takes the network only. Its seed is a local variable set
  from \<^verbatim>\<open>time(NULL)\<close>, the value \<open>now\<close> here. \<^verbatim>\<open>gauss0\<close> of \<^verbatim>\<open>random.h\<close> is not part of the
  sources and is a parameter: from a seed it gives a deviate and the next seed.
\<close>

definition set_random_weights_biases ::
  "(int \<Rightarrow> 'a \<times> int) \<Rightarrow> int \<Rightarrow> 'a network \<Rightarrow> 'a network" where
  "set_random_weights_biases gauss0 now net =
     fst (fold (\<lambda>i (net', seed).
            let (b, w, seed) =
              fold (\<lambda>j (b, w, seed).
                      let (v, seed) = gauss0 seed;
                          b = set_entry b j 0 v
                      in fold (\<lambda>k (b, w, seed).
                                 let (v, seed) = gauss0 seed in (b, set_entry w j k v, seed))
                              [0..<nat (net_structure net ! i)] (b, w, seed))
                   [0..<nat (net_structure net ! (i + 1))]
                   (biases net' ! i, weights net' ! i, seed)
            in (net'\<lparr>biases := (biases net')[i := b], weights := (weights net')[i := w]\<rparr>, seed))
          [0..<nat (n_layers net - 1)] (net, now))"

section \<open>Persistence\<close>

text \<open>
  A file is its bytes. \<^verbatim>\<open>fwrite\<close> and \<^verbatim>\<open>fread\<close> move the bytes of an object as they lie in
  memory: four bytes for an \<^verbatim>\<open>int\<close>, eight for a \<^verbatim>\<open>double\<close>, here with the least
  significant byte first. A \<^verbatim>\<open>double\<close> is the 64 bits of its representation.
\<close>

type_synonym byte = "8 word"
type_synonym double = "64 word"

fun le_bytes :: "nat \<Rightarrow> nat \<Rightarrow> byte list" where
  "le_bytes 0 v = []"
| "le_bytes (Suc k) v = word_of_nat (v mod 256) # le_bytes k (v div 256)"

fun le_value :: "byte list \<Rightarrow> nat" where
  "le_value [] = 0"
| "le_value (x # xs) = unat x + 256 * le_value xs"

definition fwrite_int :: "int \<Rightarrow> byte list" where
  "fwrite_int x = le_bytes 4 (unat (word_of_int x :: 32 word))"

definition fwrite_double :: "double \<Rightarrow> byte list" where
  "fwrite_double x = le_bytes 8 (unat x)"

text \<open>
  \<^verbatim>\<open>fread\<close> of one item into an object holding \<open>old\<close>: with the item's bytes all there the
  object takes their value. At the end of the stream nothing is stored. When only a part
  of the item is left, \<^verbatim>\<open>fread\<close> stores the bytes it has read over the first bytes of the
  object, whose other bytes stay as they were, and the stream is at its end (the C
  standard calls the value of such an object indeterminate; this is what the C libraries
  in use leave in it).
  \<^verbatim>\<open>load_network\<close> never looks at what \<^verbatim>\<open>fread\<close> returns.
\<close>

definition fread_int :: "int \<Rightarrow> byte list \<Rightarrow> int \<times> byte list" where
  "fread_int old s =
     (if 4 \<le> length s then (sint (word_of_nat (le_value (take 4 s)) :: 32 word), drop 4 s)
      else if s = [] then (old, [])
      else (sint (word_of_nat (le_value (s @ drop (length s) (fwrite_int old))) :: 32 word), []))"

definition fread_double :: "double \<Rightarrow> byte list \<Rightarrow> double \<times> byte list" where
  "fread_double old s =
     (if 8 \<le> length s then (word_of_nat (le_value (take 8 s)), drop 8 s)
      else if s = [] then (old, [])
      else (word_of_nat (le_value (s @ drop (length s) (fwrite_double old))), []))"

text \<open>\<^verbatim>\<open>fread(arr, sizeof(int), n, ptr)\<close>: item after item into \<^verbatim>\<open>arr[0]\<close> to \<^verbatim>\<open>arr[n-1]\<close>.\<close>

definition fread_ints :: "nat \<Rightarrow> int list \<Rightarrow> byte list \<Rightarrow> int list \<times> byte list" where
  "fread_ints n arr s =
     fold (\<lambda>i (arr, s). let (v, s) = fread_int (arr ! i) s in (arr[i := v], s)) [0..<n] (arr, s)"

definition save_network :: "double network \<Rightarrow> byte list" where
  "save_network net =
     fwrite_int (n_layers net)
     @ concat (map (\<lambda>i. fwrite_int (net_structure net ! i)) [0..<nat (n_layers net)])
     @ concat (map (\<lambda>l.
         concat (map (\<lambda>i.
           fwrite_double (data (biases net ! l) ! i ! 0)
           @ concat (map (\<lambda>j. fwrite_double (data (weights net ! l) ! i ! j))
                         [0..<nat (net_structure net ! l)]))
           [0..<nat (net_structure net ! (l + 1))]))
         [0..<nat (n_layers net - 1)])"

text \<open>
  \<^verbatim>\<open>load_network\<close>: \<open>ui\<close> stands for what the local \<^verbatim>\<open>n_layers\<close> and the fresh array
  \<^verbatim>\<open>net_structure\<close> hold before they are read into. With a negative layer count the
  array's size and the item count of the second \<^verbatim>\<open>fread\<close> are beyond what C defines;
  the result is \<open>None\<close> there. Otherwise the function returns its network, whatever the
  stream held.
\<close>

definition load_network :: "double \<Rightarrow> int \<Rightarrow> byte list \<Rightarrow> double network option" where
  "load_network u ui file =
     (let (n, s) = fread_int ui file in
      if n < 0 then None
      else
        let (ns, s) = fread_ints (nat n) (replicate (nat n) ui) s;
            net = create_network u n ns
        in Some (fst (fold (\<lambda>l (net', s).
             let (b, w, s) =
               fold (\<lambda>i (b, w, s).
                       let (v, s) = fread_double (data b ! i ! 0) s;
                           b = set_entry b i 0 v
                       in fold (\<lambda>j (b, w, s).
                                  let (v, s) = fread_double (data w ! i ! j) s
                                  in (b, set_entry w i j v, s))
                               [0..<nat (ns ! l)] (b, w, s))
                    [0..<nat (ns ! (l + 1))]
                    (biases net' ! l, weights net' ! l, s)
             in (net'\<lparr>biases := (biases net')[l := b], weights := (weights net')[l := w]\<rparr>, s))
           [0..<nat (n - 1)] (net, s))))"

section \<open>Training\<close>

text \<open>
  \<^verbatim>\<open>rand_lim\<close> of \<^verbatim>\<open>random.h\<close> is not part of the sources and is a parameter: from a limit
  and the state of the generator it gives a number and the next state. The spec's
  sampler contract has its number between \<open>0\<close> and the limit; the theorems that need
  this assume it.
\<close>

fun shuffle_loop ::
  "(int \<Rightarrow> 'g \<Rightarrow> int \<times> 'g) \<Rightarrow> nat \<Rightarrow> 'a matrix_double \<times> 'a matrix_double \<times> 'g
     \<Rightarrow> 'a matrix_double \<times> 'a matrix_double \<times> 'g" where
  "shuffle_loop rand_lim 0 st = st"
| "shuffle_loop rand_lim (Suc i) (d, l, g) =
     (let (j, g) = rand_lim (int (Suc i)) g
      in shuffle_loop rand_lim i
           (interchange_cols_matrix_double d (int (Suc i)) j,
            interchange_cols_matrix_double l (int (Suc i)) j, g))"

definition shuffle_data ::
  "(int \<Rightarrow> 'g \<Rightarrow> int \<times> 'g) \<Rightarrow> 'a matrix_double \<Rightarrow> 'a matrix_double \<Rightarrow> 'g
     \<Rightarrow> 'a matrix_double \<times> 'a matrix_double \<times> 'g" where
  "shuffle_data rand_lim d l g = shuffle_loop rand_lim (nat (ncols d - 1)) (d, l, g)"

text \<open>
  The pass of Fisher and Yates in the words of the spec: for each \<open>i\<close> from \<open>N - 1\<close> down to
  \<open>1\<close> a column index \<open>j\<close> is drawn with limit \<open>i\<close>, and the columns \<open>i\<close> and \<open>j\<close> are
  interchanged. \<open>fisher_yates_draws\<close> lists the pairs \<open>(i, j)\<close> in the order of the draws,
  \<open>interchange_index\<close> is the interchange of two indices, and \<open>fisher_yates_perm\<close> is the
  permutation of the column indices that the interchanges of a list of pairs make up.
\<close>

fun fisher_yates_draws :: "(int \<Rightarrow> 'g \<Rightarrow> int \<times> 'g) \<Rightarrow> nat \<Rightarrow> 'g \<Rightarrow> (nat \<times> nat) list" where
  "fisher_yates_draws rand_lim 0 g = []"
| "fisher_yates_draws rand_lim (Suc i) g =
     (let (j, g) = rand_lim (int (Suc i)) g
      in (Suc i, nat j) # fisher_yates_draws rand_lim i g)"

definition interchange_index :: "nat \<Rightarrow> nat \<Rightarrow> nat \<Rightarrow> nat" where
  "interchange_index i j k = (if k = i then j else if k = j then i else k)"

fun fisher_yates_perm :: "(nat \<times> nat) list \<Rightarrow> nat \<Rightarrow> nat" where
  "fisher_yates_perm [] k = k"
| "fisher_yates_perm ((i, j) # sw) k = interchange_index i j (fisher_yates_perm sw k)"

definition calculate_costs :: "'a \<Rightarrow> 'a matrix_double \<Rightarrow> 'a matrix_double list \<Rightarrow> 'a matrix_double" where
  "calculate_costs u labels outputs = alloc_matrix_double u 0 0"

text \<open>
  The forward pass of \<^verbatim>\<open>network_backprop\<close> for one training input: the lists \<^verbatim>\<open>zs[l]\<close> and
  \<^verbatim>\<open>activs[l]\<close> over the layers \<open>l\<close>.
\<close>

definition forward_trace ::
  "'a \<Rightarrow> ('a \<Rightarrow> 'a) \<Rightarrow> 'a::{zero,one,plus,times,uminus,inverse} network \<Rightarrow> 'a matrix_double
     \<Rightarrow> error + 'a matrix_double list \<times> 'a matrix_double list" where
  "forward_trace u ex net activ0 =
     fold (\<lambda>l r. case r of
                   Inl e \<Rightarrow> Inl e
                 | Inr (zs, activs) \<Rightarrow>
                     (case forward_step ex (weights net ! (l - 1)) (activs ! (l - 1)) of
                        Inl e \<Rightarrow> Inl e
                      | Inr (z, activ) \<Rightarrow> Inr (zs @ [z], activs @ [activ])))
          [1..<nat (n_layers net)] (Inr ([alloc_matrix_double u 0 0], [activ0]))"

text \<open>
  The cleanup of \<^verbatim>\<open>network_backprop\<close>. It first releases \<^verbatim>\<open>costs\<close>, which is assigned in
  the loop over the training inputs only, so with no input it was never assigned. Then,
  for every input \<open>i\<close>, it releases \<^verbatim>\<open>activs[l][i]\<close> and \<^verbatim>\<open>zs[l][i]\<close> for \<open>l\<close> below the number
  \<open>n\<close> of inputs, whereas the two arrays have \<open>rows = n_layers\<close> rows: an index \<open>l\<close> from
  \<open>n_layers\<close> on is beyond them. Releasing a matrix that was assigned changes nothing here.
\<close>

definition backprop_cleanup :: "int \<Rightarrow> nat \<Rightarrow> 'a matrix_double option \<Rightarrow> error + unit" where
  "backprop_cleanup rows n costs =
     (case costs of
        None \<Rightarrow> Inl FreeUnassigned
      | Some c \<Rightarrow>
          fold (\<lambda>i r. fold (\<lambda>l r. case r of
                                     Inl e \<Rightarrow> Inl e
                                   | Inr x \<Rightarrow> if int l < rows then Inr x else Inl IndexOutOfBounds)
                            [0..<n] r)
               [0..<n] (Inr ()))"

text \<open>
  \<^verbatim>\<open>network_backprop\<close> has no result. The model returns the network as the call leaves
  it, which is where an update of the weights and biases would show. The traces and the
  costs are computed and dropped, as in the source. Row \<open>0\<close> of \<^verbatim>\<open>activs\<close> and \<^verbatim>\<open>zs\<close> is
  written for every input, so the arrays must have a row.
\<close>

definition network_backprop ::
  "'a \<Rightarrow> ('a \<Rightarrow> 'a) \<Rightarrow> 'a::{zero,one,plus,times,uminus,inverse} network \<Rightarrow> 'a matrix_double
     \<Rightarrow> 'a matrix_double \<Rightarrow> error + 'a network" where
  "network_backprop u ex net training_data training_labels =
     (case fold (\<lambda>i r. case r of
                   Inl e \<Rightarrow> Inl e
                 | Inr (traces, costs) \<Rightarrow>
                     if n_layers net < 1 then Inl IndexOutOfBounds
                     else
                       (let input = copy_col_matrix_double training_data i;
                            activ0 = set_col_matrix_double
                                       (alloc_matrix_double u (nrows training_data) 1) input 0
                        in case forward_trace u ex net activ0 of
                             Inl e \<Rightarrow> Inl e
                           | Inr tr \<Rightarrow>
                               Inr (traces @ [tr],
                                    Some (calculate_costs u training_labels
                                            (map (\<lambda>t. last (snd t)) (traces @ [tr]))))))
                [0..<nat (ncols training_data)] (Inr ([], None)) of
        Inl e \<Rightarrow> Inl e
      | Inr (traces, costs) \<Rightarrow>
          (case backprop_cleanup (n_layers net) (nat (ncols training_data)) costs of
             Inl e \<Rightarrow> Inl e
           | Inr x \<Rightarrow> Inr net))"

text \<open>
  The state of \<^verbatim>\<open>network_SGD\<close>: the two training matrices, which \<^verbatim>\<open>shuffle_data\<close>
  changes in place, the network, the state of the generator, and a log of the column
  ranges \<open>(j, k)\<close> of the mini batches handed to \<^verbatim>\<open>network_backprop\<close>.
\<close>

record ('a, 'g) sgd_state =
  st_data :: "'a matrix_double"
  st_labels :: "'a matrix_double"
  st_net :: "'a network"
  st_rng :: 'g
  st_batches :: "(int \<times> int) list"

text \<open>
  The loop over \<open>j\<close> of \<^verbatim>\<open>network_SGD\<close>. It need not end: \<open>None\<close> is a loop that runs for
  ever. The sums \<open>j + mini_batch_size\<close> are those of the integers; C leaves them undefined
  beyond the range of \<^verbatim>\<open>int\<close>. The parameter \<^verbatim>\<open>eta\<close> of \<^verbatim>\<open>network_SGD\<close> is never read.
\<close>

partial_function (option) sgd_mini_batches ::
  "'a \<Rightarrow> ('a \<Rightarrow> 'a) \<Rightarrow> int \<Rightarrow> int \<Rightarrow> int
     \<Rightarrow> ('a::{zero,one,plus,times,uminus,inverse}, 'g) sgd_state
     \<Rightarrow> (error + ('a, 'g) sgd_state) option" where
  "sgd_mini_batches u ex data_size mini_batch_size j st =
     (if j < data_size then
        let k = j + mini_batch_size;
            k = (if k > data_size then data_size else k);
            section = \<lparr>sec_a = \<lparr>c_row = 0, c_col = j\<rparr>,
                       sec_b = \<lparr>c_row = nrows (st_data st), c_col = k\<rparr>\<rparr>;
            mini_batch_data = extract_section_matrix_double (st_data st) section;
            section = section\<lparr>sec_b := (sec_b section)\<lparr>c_row := nrows (st_labels st)\<rparr>\<rparr>;
            mini_batch_labels = extract_section_matrix_double (st_labels st) section
        in case network_backprop u ex (st_net st) mini_batch_data mini_batch_labels of
             Inl e \<Rightarrow> Some (Inl e)
           | Inr net \<Rightarrow>
               sgd_mini_batches u ex data_size mini_batch_size (j + mini_batch_size)
                 (st\<lparr>st_net := net, st_batches := st_batches st @ [(j, k)]\<rparr>)
      else Some (Inr st))"

fun sgd_epochs ::
  "'a \<Rightarrow> ('a \<Rightarrow> 'a) \<Rightarrow> (int \<Rightarrow> 'g \<Rightarrow> int \<times> 'g) \<Rightarrow> int \<Rightarrow> int \<Rightarrow> nat
     \<Rightarrow> ('a::{zero,one,plus,times,uminus,inverse}, 'g) sgd_state
     \<Rightarrow> (error + ('a, 'g) sgd_state) option" where
  "sgd_epochs u ex rand_lim data_size mini_batch_size 0 st = Some (Inr st)"
| "sgd_epochs u ex rand_lim data_size mini_batch_size (Suc n) st =
     (let (d, l, g) = shuffle_data rand_lim (st_data st) (st_labels st) (st_rng st)
      in case sgd_mini_batches u ex data_size mini_batch_size 0
                (st\<lparr>st_data := d, st_labels := l, st_rng := g\<rparr>) of
           None \<Rightarrow> None
         | Some (Inl e) \<Rightarrow> Some (Inl e)
         | Some (Inr st) \<Rightarrow> sgd_epochs u ex rand_lim data_size mini_batch_size n st)"

definition network_SGD ::
  "'a \<Rightarrow> ('a \<Rightarrow> 'a) \<Rightarrow> (int \<Rightarrow> 'g \<Rightarrow> int \<times> 'g)
     \<Rightarrow> 'a::{zero,one,plus,times,uminus,inverse} network \<Rightarrow> 'a matrix_double \<Rightarrow> 'a matrix_double
     \<Rightarrow> int \<Rightarrow> int \<Rightarrow> 'a \<Rightarrow> 'g \<Rightarrow> (error + ('a, 'g) sgd_state) option" where
  "network_SGD u ex rand_lim net training_data training_labels epochs mini_batch_size eta g =
     sgd_epochs u ex rand_lim (ncols training_data) mini_batch_size (nat epochs)
       \<lparr>st_data = training_data, st_labels = training_labels, st_net = net, st_rng = g,
        st_batches = []\<rparr>"


section \<open>The loop nest over the parameters\<close>

text \<open>
  \<^verbatim>\<open>set_random_weights_biases\<close> and \<^verbatim>\<open>load_network\<close> run the same three loops: for each
  layer, for each of its neurons, the bias and then the weights of the neuron are
  assigned from a source of values. The loops are stated once more here for an arbitrary
  source \<open>rd\<close>, which is given the old value of the entry and a state and returns the new
  value and the next state; the two functions are proved to be instances.
\<close>

definition fill_row ::
  "('a \<Rightarrow> 's \<Rightarrow> 'a \<times> 's) \<Rightarrow> nat \<Rightarrow> nat \<Rightarrow> 'a matrix_double \<times> 'a matrix_double \<times> 's
     \<Rightarrow> 'a matrix_double \<times> 'a matrix_double \<times> 's" where
  "fill_row rd n_prev j =
     fold (\<lambda>k (b, w, s). let (v, s) = rd (data w ! j ! k) s in (b, set_entry w j k v, s))
          [0..<n_prev]"

definition fill_neuron ::
  "('a \<Rightarrow> 's \<Rightarrow> 'a \<times> 's) \<Rightarrow> nat \<Rightarrow> nat \<Rightarrow> 'a matrix_double \<times> 'a matrix_double \<times> 's
     \<Rightarrow> 'a matrix_double \<times> 'a matrix_double \<times> 's" where
  "fill_neuron rd n_prev j =
     (\<lambda>(b, w, s). let (v, s) = rd (data b ! j ! 0) s;
                      b = set_entry b j 0 v
                  in fill_row rd n_prev j (b, w, s))"

definition fill_layer ::
  "('a \<Rightarrow> 's \<Rightarrow> 'a \<times> 's) \<Rightarrow> nat \<Rightarrow> nat \<Rightarrow> 'a matrix_double \<times> 'a matrix_double \<times> 's
     \<Rightarrow> 'a matrix_double \<times> 'a matrix_double \<times> 's" where
  "fill_layer rd n n_prev = fold (fill_neuron rd n_prev) [0..<n]"

definition fill_parameters ::
  "('a \<Rightarrow> 's \<Rightarrow> 'a \<times> 's) \<Rightarrow> int list \<Rightarrow> nat \<Rightarrow> 'a network \<times> 's \<Rightarrow> 'a network \<times> 's" where
  "fill_parameters rd ns n =
     fold (\<lambda>l (net, s).
             let (b, w, s) = fill_layer rd (nat (ns ! (l + 1))) (nat (ns ! l))
                               (biases net ! l, weights net ! l, s)
             in (net\<lparr>biases := (biases net)[l := b], weights := (weights net)[l := w]\<rparr>, s))
          [0..<n]"

text \<open>
  \<open>reads rd s xs s'\<close>: from the state \<open>s\<close> the source yields the values \<open>xs\<close> one after the
  other, whatever the old values are, and is then in the state \<open>s'\<close>.
\<close>

fun reads :: "('a \<Rightarrow> 's \<Rightarrow> 'a \<times> 's) \<Rightarrow> 's \<Rightarrow> 'a list \<Rightarrow> 's \<Rightarrow> bool" where
  "reads rd s [] s' \<longleftrightarrow> s' = s"
| "reads rd s (x # xs) s' \<longleftrightarrow> (\<exists>s1. (\<forall>old. rd old s = (x, s1)) \<and> reads rd s1 xs s')"

text \<open>
  The values of a layer in the order of the loops, from a list with the bias and the
  weights of each neuron.
\<close>

definition flat :: "('a \<times> 'a list) list \<Rightarrow> 'a list" where
  "flat vs = concat (map (\<lambda>(x, xs). x # xs) vs)"

text \<open>The values that fit C's 32-bit \<^verbatim>\<open>int\<close>.\<close>

definition int32 :: "int \<Rightarrow> bool" where
  "int32 x \<longleftrightarrow> - (2 ^ 31) \<le> x \<and> x < 2 ^ 31"

section \<open>Construction\<close>

lemma wf_alloc_matrix_double: "wf_matrix (alloc_matrix_double u r c)"
  by (simp add: wf_matrix_def alloc_matrix_double_def list_all_iff)

text \<open>
  C4. For a schedule of \<open>n \<ge> 2\<close> positive layer sizes, \<^verbatim>\<open>create_network\<close> yields \<open>n - 1\<close>
  weight matrices and \<open>n - 1\<close> bias vectors, and for every \<open>l\<close> from \<open>0\<close> to \<open>n - 2\<close> the
  weight matrix \<open>l\<close> has \<open>ns[l+1]\<close> rows and \<open>ns[l]\<close> columns and the bias vector \<open>l\<close> is a
  column of \<open>ns[l+1]\<close> entries, the storage having exactly these sizes.
\<close>

theorem create_network_shape:
  assumes "2 \<le> n" and "length ns = nat n" and "\<forall>s \<in> set ns. 0 < s"
    and "l < nat (n - 1)"
  shows "length (weights (create_network u n ns)) = nat (n - 1)
       \<and> length (biases (create_network u n ns)) = nat (n - 1)
       \<and> nrows (weights (create_network u n ns) ! l) = ns ! (l + 1)
       \<and> ncols (weights (create_network u n ns) ! l) = ns ! l
       \<and> nrows (biases (create_network u n ns) ! l) = ns ! (l + 1)
       \<and> ncols (biases (create_network u n ns) ! l) = 1
       \<and> wf_matrix (weights (create_network u n ns) ! l)
       \<and> wf_matrix (biases (create_network u n ns) ! l)
       \<and> length (data (weights (create_network u n ns) ! l)) = nat (ns ! (l + 1))
       \<and> (\<forall>r \<in> set (data (weights (create_network u n ns) ! l)). length r = nat (ns ! l))
       \<and> length (copy_col_matrix_double (biases (create_network u n ns) ! l) 0) = nat (ns ! (l + 1))"
  using assms
  by (simp add: create_network_def wf_alloc_matrix_double)
     (simp add: alloc_matrix_double_def copy_col_matrix_double_def)

theorem create_network_shape_witness:
  "length (weights (create_network (0::int) 3 [2, 3, 1])) = 2
   \<and> nrows (weights (create_network (0::int) 3 [2, 3, 1]) ! 1) = 1
   \<and> ncols (weights (create_network (0::int) 3 [2, 3, 1]) ! 1) = 3
   \<and> nrows (biases (create_network (0::int) 3 [2, 3, 1]) ! 1) = 1
   \<and> data (weights (create_network (0::int) 3 [2, 3, 1]) ! 1) = [[0, 0, 0]]"
  using create_network_shape [of 3 "[2, 3, 1]" 1 "0::int"]
  by (simp add: create_network_def alloc_matrix_double_def numeral_3_eq_3)

text \<open>
  C7 (as stated, refuted). The claim has \<^verbatim>\<open>create_network\<close> fail for a layer count
  below 2. With the layer count 1 the function returns a network, of one layer and with
  no weight matrix and no bias vector: its result type is the struct alone, and the
  source checks neither the count nor the sizes.
\<close>

theorem create_network_one_layer_counterexample:
  "create_network (0::double) 1 [3]
     = \<lparr>n_layers = 1, net_structure = [3], weights = [], biases = []\<rparr>"
  by (simp add: create_network_def copy_array_int_def)

text \<open>
  C7 (amended). \<^verbatim>\<open>create_network\<close> checks nothing and cannot report an error: for every
  layer count \<open>n\<close> and every schedule it returns a network with that layer count, the
  first \<open>n\<close> sizes copied, and \<open>n - 1\<close> weight matrices and bias vectors (none for
  \<open>n < 2\<close>), number \<open>l\<close> of them allocated with the sizes \<open>ns[l+1]\<close> and \<open>ns[l]\<close> as they are
  requested, whatever their sign.
\<close>

theorem create_network_unchecked:
  "n_layers (create_network u n ns) = n
   \<and> net_structure (create_network u n ns) = take (nat n) ns
   \<and> length (weights (create_network u n ns)) = nat (n - 1)
   \<and> length (biases (create_network u n ns)) = nat (n - 1)
   \<and> (l < nat (n - 1) \<longrightarrow>
        weights (create_network u n ns) ! l = alloc_matrix_double u (ns ! (l + 1)) (ns ! l)
      \<and> biases (create_network u n ns) ! l = alloc_matrix_double u (ns ! (l + 1)) 1)"
  by (simp add: create_network_def copy_array_int_def)

theorem create_network_unchecked_witness:
  "(0::nat) < nat (2 - 1)
   \<and> n_layers (create_network (0::double) 2 [0, - 1]) = 2
   \<and> weights (create_network (0::double) 2 [0, - 1]) ! 0 = \<lparr>nrows = - 1, ncols = 0, data = []\<rparr>
   \<and> biases (create_network (0::double) 2 [0, - 1]) ! 0 = \<lparr>nrows = - 1, ncols = 1, data = []\<rparr>"
  using create_network_unchecked [of "0::double" 2 "[0, - 1]" 0]
  by (simp add: alloc_matrix_double_def)

section \<open>The forward pass and the recurrence of the spec\<close>

lemma set_col_alloc:
  "length input = nat n \<Longrightarrow> 0 \<le> n \<Longrightarrow>
   set_col_matrix_double (alloc_matrix_double u n 1) input 0 = colvec input"
  by (auto simp: set_col_matrix_double_def alloc_matrix_double_def colvec_def
        intro!: nth_equalityI)

lemma copy_col_colvec: "copy_col_matrix_double (colvec v) 0 = v"
  by (auto simp: copy_col_matrix_double_def colvec_def intro!: nth_equalityI)

lemma dot_index:
  assumes "length r = n" "length v = n"
  shows "fold (\<lambda>k acc. acc + r ! k * map (\<lambda>x. [x]) v ! k ! 0) [0..<n] (z::'a::{zero,plus,times})
       = foldl (\<lambda>acc (w, x). acc + w * x) z (zip r v)"
  using assms
proof (induction n arbitrary: r v)
  case 0 then show ?case by simp
next
  case (Suc n)
  then obtain r' a v' b where r: "r = r' @ [a]" "length r' = n" and v: "v = v' @ [b]" "length v' = n"
    by (metis length_Suc_conv_rev)
  have "fold (\<lambda>k acc. acc + r ! k * map (\<lambda>x. [x]) v ! k ! 0) [0..<n] z
      = fold (\<lambda>k acc. acc + r' ! k * map (\<lambda>x. [x]) v' ! k ! 0) [0..<n] z"
    by (rule fold_cong) (auto simp: r v nth_append)
  then show ?case using Suc.IH [of r' v'] r v by (simp add: nth_append)
qed

lemma forward_step_colvec:
  assumes "wf_matrix w" "ncols w = int (length v)" "0 \<le> nrows w"
  shows "forward_step ex w (colvec v)
       = Inr (colvec (mat_vec (data w) v), colvec (map (sigma ex) (mat_vec (data w) v)))"
proof -
  have rows: "\<And>i. i < nat (nrows w) \<Longrightarrow> length (data w ! i) = length v"
    using assms by (auto simp: wf_matrix_def list_all_length)
  have len: "length (data w) = nat (nrows w)" using assms by (simp add: wf_matrix_def)
  have mv: "map (\<lambda>i. [fold (\<lambda>k acc. acc + data w ! i ! k * map (\<lambda>x. [x]) v ! k ! 0) [0..<length v] 0])
              [0..<nat (nrows w)] = map (\<lambda>x. [x]) (mat_vec (data w) v)"
    using rows len by (auto simp: mat_vec_def dot_index intro!: nth_equalityI)
  show ?thesis
    using assms(2,3) len mv
    by (auto simp: forward_step_def matrix_product_matrix_double_def colvec_def
          vectorized_sigma_def copy_matrix_double_def mat_vec_def intro!: nth_equalityI)
qed

lemma length_mat_vec: "length (mat_vec rows v) = length rows"
  by (simp add: mat_vec_def)

lemma length_spec_activation:
  assumes "valid_network net" "length input = nat (net_structure net ! 0)" "l < nat (n_layers net)"
  shows "length (spec_activation ex (weights net) input l) = nat (net_structure net ! l)"
  using assms(3)
proof (induction l)
  case 0 then show ?case using assms(2) by simp
next
  case (Suc l)
  then have "l < nat (n_layers net - 1)" by simp
  then have "wf_matrix (weights net ! l)" "nrows (weights net ! l) = net_structure net ! (l + 1)"
    using assms(1) by (simp_all add: valid_network_def list_all_iff)
  then show ?case by (simp add: length_mat_vec wf_matrix_def)
qed

lemma feedforward_loop:
  assumes "valid_network net" "length input = nat (net_structure net ! 0)" "k < nat (n_layers net)"
  shows "fold (\<lambda>l r. case r of Inl e \<Rightarrow> Inl e
                     | Inr act \<Rightarrow> map_sum id snd (forward_step ex (weights net ! (l - 1)) act))
              [1..<Suc k] (Inr (colvec input))
       = Inr (colvec (spec_activation ex (weights net) input k))"
  using assms(3)
proof (induction k)
  case 0 then show ?case by simp
next
  case (Suc k)
  then have k: "k < nat (n_layers net - 1)" by simp
  then have w: "wf_matrix (weights net ! k)" "nrows (weights net ! k) = net_structure net ! (k + 1)"
      "ncols (weights net ! k) = net_structure net ! k"
    using assms(1) by (simp_all add: valid_network_def list_all_iff)
  have pos: "0 < net_structure net ! k" "0 < net_structure net ! (k + 1)"
    using assms(1) k by (simp_all add: valid_network_def list_all_length)
  have len: "length (spec_activation ex (weights net) input k) = nat (net_structure net ! k)"
    using length_spec_activation [OF assms(1,2)] Suc.prems by simp
  have "forward_step ex (weights net ! k) (colvec (spec_activation ex (weights net) input k))
      = Inr (colvec (mat_vec (data (weights net ! k)) (spec_activation ex (weights net) input k)),
             colvec (spec_activation ex (weights net) input (Suc k)))"
    using w pos len by (simp add: forward_step_colvec)
  then show ?case using Suc by simp
qed

lemma feedforward_recurrence:
  assumes "valid_network net" and "length input = nat (net_structure net ! 0)"
  shows "feedforward u ex net input
           = Inr (spec_activation ex (weights net) input (nat (n_layers net) - 1))"
proof -
  have n: "2 \<le> n_layers net" "0 < net_structure net ! 0"
    using assms(1) by (simp_all add: valid_network_def list_all_length)
  then have "[1..<nat (n_layers net)] = [1..<Suc (nat (n_layers net) - 1)]" by simp
  then show ?thesis
    using feedforward_loop [OF assms, of "nat (n_layers net) - 1" ex] n assms(2)
    by (simp add: feedforward_def set_col_alloc copy_col_colvec)
qed

text \<open>
  C1. For a network of the data model (at least two layers, shapes as the layer sizes
  prescribe) and an input of \<open>net_structure[0]\<close> entries, \<^verbatim>\<open>feedforward\<close> returns the
  activations \<open>a\<^bsub>L-1\<^esub>\<close> of the spec's recurrence: \<open>a\<^sub>0\<close> the input, \<open>a\<^sub>l\<close> the sigmoid of
  the product of the weights \<open>l - 1\<close> with \<open>a\<^bsub>l-1\<^esub>\<close>, the sigmoid being
  \<open>1 / (1 + exp (- x))\<close>. No bias is added: the recurrence has none, and the result is the
  same whatever the bias vectors hold.
\<close>

theorem feedforward_spec:
  assumes "valid_network net" and "length input = nat (net_structure net ! 0)"
  shows "feedforward u ex net input
           = Inr (spec_activation ex (weights net) input (nat (n_layers net) - 1))
       \<and> feedforward u ex (net\<lparr>biases := bs\<rparr>) input = feedforward u ex net input
       \<and> sigma ex x = 1 / (1 + ex (- x))"
proof -
  have "feedforward u ex (net\<lparr>biases := bs\<rparr>) input = feedforward u ex net input"
    by (simp add: feedforward_def)
  then show ?thesis
    using feedforward_recurrence [OF assms, of u ex] by (simp add: sigma_def)
qed

theorem feedforward_spec_witness:
  "valid_network (\<lparr>n_layers = 3, net_structure = [2, 2, 1],
         weights = [\<lparr>nrows = 2, ncols = 2, data = [[1, 2], [3, 4]]\<rparr>,
                    \<lparr>nrows = 1, ncols = 2, data = [[5, 6]]\<rparr>],
         biases = [\<lparr>nrows = 2, ncols = 1, data = [[7], [8]]\<rparr>,
                   \<lparr>nrows = 1, ncols = 1, data = [[9]]\<rparr>]\<rparr> :: real network)
   \<and> feedforward 0 exp
        \<lparr>n_layers = 3, net_structure = [2, 2, 1],
         weights = [\<lparr>nrows = 2, ncols = 2, data = [[1, 2], [3, 4]]\<rparr>,
                    \<lparr>nrows = 1, ncols = 2, data = [[5, 6]]\<rparr>],
         biases = [\<lparr>nrows = 2, ncols = 1, data = [[7], [8]]\<rparr>,
                   \<lparr>nrows = 1, ncols = 1, data = [[9]]\<rparr>]\<rparr> [1, 1]
       = Inr [sigma exp (5 * sigma exp 3 + 6 * sigma exp 7 :: real)]"
proof -
  let ?N = "\<lparr>n_layers = 3, net_structure = [2, 2, 1],
         weights = [\<lparr>nrows = 2, ncols = 2, data = [[1, 2], [3, 4]]\<rparr>,
                    \<lparr>nrows = 1, ncols = 2, data = [[5, 6]]\<rparr>],
         biases = [\<lparr>nrows = 2, ncols = 1, data = [[7], [8]]\<rparr>,
                   \<lparr>nrows = 1, ncols = 1, data = [[9]]\<rparr>]\<rparr> :: real network"
  have v: "valid_network ?N"
    by (simp add: valid_network_def wf_matrix_def upt_rec)
  have l: "length [1, 1 :: real] = nat (net_structure ?N ! 0)" by simp
  show ?thesis
    using v feedforward_spec [OF v l, of 0 exp]
    by (simp add: mat_vec_def numeral_2_eq_2)
qed

section \<open>The loop nest over the parameters, value by value\<close>

lemma set_random_weights_biases_fill:
  "set_random_weights_biases gauss0 now net
     = fst (fill_parameters (\<lambda>old. gauss0) (net_structure net) (nat (n_layers net - 1)) (net, now))"
  unfolding set_random_weights_biases_def fill_parameters_def fill_layer_def
    fill_neuron_def [abs_def] fill_row_def [abs_def]
  by (simp add: Let_def)

lemma load_network_fill:
  "load_network u ui file =
     (let (n, s) = fread_int ui file in
      if n < 0 then None
      else let (ns, s) = fread_ints (nat n) (replicate (nat n) ui) s
           in Some (fst (fill_parameters fread_double ns (nat (n - 1)) (create_network u n ns, s))))"
  unfolding load_network_def fill_parameters_def fill_layer_def
    fill_neuron_def [abs_def] fill_row_def [abs_def] Let_def
  by (rule refl)

lemma reads_append:
  "reads rd s (xs @ ys) s'' \<longleftrightarrow> (\<exists>s'. reads rd s xs s' \<and> reads rd s' ys s'')"
  by (induction xs arbitrary: s) auto

lemma take_drop_update:
  assumes "k < length xs" "length ys = length xs"
  shows "(take k xs @ drop k ys)[k := xs ! k] = take (Suc k) xs @ drop (Suc k) ys"
proof -
  have "drop k ys = ys ! k # drop (Suc k) ys"
    using assms by (simp add: Cons_nth_drop_Suc)
  then show ?thesis
    using assms by (simp add: list_update_append take_Suc_conv_app_nth)
qed

lemma flat_append: "flat (xs @ ys) = flat xs @ flat ys"
  by (simp add: flat_def)

lemma flat_single: "flat [v] = fst v # snd v"
  by (simp add: flat_def split: prod.splits)

lemma fill_row_steps:
  assumes "j < length (data w)" "length (data w ! j) = length xs" "k \<le> length xs"
    and "reads rd s (take k xs) s'"
  shows "fill_row rd k j (b, w, s)
       = (b, w\<lparr>data := (data w)[j := take k xs @ drop k (data w ! j)]\<rparr>, s')"
  using assms(3,4)
proof (induction k arbitrary: s')
  case 0
  then show ?case by (simp add: fill_row_def)
next
  case (Suc k)
  then have k: "k < length xs" by simp
  from Suc.prems(2) k obtain s1 where s1: "reads rd s (take k xs) s1"
    and rd: "\<And>old. rd old s1 = (xs ! k, s')"
    by (auto simp: take_Suc_conv_app_nth reads_append)
  have IH: "fill_row rd k j (b, w, s)
       = (b, w\<lparr>data := (data w)[j := take k xs @ drop k (data w ! j)]\<rparr>, s1)"
    using Suc.IH [OF _ s1] k by simp
  have "fill_row rd (Suc k) j (b, w, s)
      = (\<lambda>(b, w, s). let (v, s) = rd (data w ! j ! k) s in (b, set_entry w j k v, s))
          (fill_row rd k j (b, w, s))"
    by (simp add: fill_row_def)
  also have "\<dots> = (b, w\<lparr>data := (data w)[j := take (Suc k) xs @ drop (Suc k) (data w ! j)]\<rparr>, s')"
    using assms(1,2) k
    by (simp add: IH rd set_entry_def take_drop_update)
  finally show ?case .
qed

lemma fill_row_reads:
  assumes "j < length (data w)" "length (data w ! j) = length xs" "reads rd s xs s'"
  shows "fill_row rd (length xs) j (b, w, s) = (b, w\<lparr>data := (data w)[j := xs]\<rparr>, s')"
  using fill_row_steps [OF assms(1,2), of "length xs" rd s s' b] assms(2,3) by simp

lemma fill_neuron_reads:
  assumes "j < length (data b)" "length (data b ! j) = 1"
    and "j < length (data w)" "length (data w ! j) = length xs"
    and "reads rd s (x # xs) s'"
  shows "fill_neuron rd (length xs) j (b, w, s)
       = (b\<lparr>data := (data b)[j := [x]]\<rparr>, w\<lparr>data := (data w)[j := xs]\<rparr>, s')"
proof -
  from assms(5) obtain s1 where rd: "\<And>old. rd old s = (x, s1)" and r: "reads rd s1 xs s'"
    by auto
  obtain y where y: "data b ! j = [y]"
    using assms(2) by (cases "data b ! j") auto
  show ?thesis
    using assms(1) fill_row_reads [OF assms(3,4) r]
    by (simp add: fill_neuron_def rd set_entry_def y)
qed

lemma fill_layer_steps:
  assumes "length (data b) = n" "length (data w) = n"
    and "\<forall>r \<in> set (data b). length r = 1" "\<forall>r \<in> set (data w). length r = n_prev"
    and "length vs = n" "\<forall>v \<in> set vs. length (snd v) = n_prev"
    and "k \<le> n" "reads rd s (flat (take k vs)) s'"
  shows "fill_layer rd k n_prev (b, w, s)
       = (b\<lparr>data := take k (map (\<lambda>v. [fst v]) vs) @ drop k (data b)\<rparr>,
          w\<lparr>data := take k (map snd vs) @ drop k (data w)\<rparr>, s')"
  using assms(7,8)
proof (induction k arbitrary: s')
  case 0
  then show ?case by (simp add: fill_layer_def flat_def)
next
  case (Suc k)
  then have k: "k < n" by simp
  let ?b = "b\<lparr>data := take k (map (\<lambda>v. [fst v]) vs) @ drop k (data b)\<rparr>"
  let ?w = "w\<lparr>data := take k (map snd vs) @ drop k (data w)\<rparr>"
  from Suc.prems(2) k assms(5) obtain s1 where s1: "reads rd s (flat (take k vs)) s1"
    and r: "reads rd s1 (fst (vs ! k) # snd (vs ! k)) s'"
    by (auto simp: take_Suc_conv_app_nth flat_append flat_single reads_append)
  have IH: "fill_layer rd k n_prev (b, w, s) = (?b, ?w, s1)"
    using Suc.IH [OF _ s1] k by simp
  have len: "length (snd (vs ! k)) = n_prev"
    using assms(5,6) k by simp
  have bk: "(take k (map (\<lambda>v. [fst v]) vs) @ drop k (data b)) ! k = data b ! k"
      "(take k (map snd vs) @ drop k (data w)) ! k = data w ! k"
    using assms(1,2,5) k by (simp_all add: nth_append)
  have rows: "length (data b ! k) = 1" "length (data w ! k) = n_prev"
    using assms(1-4) k by simp_all
  have step: "fill_neuron rd (length (snd (vs ! k))) k (?b, ?w, s1)
      = (?b\<lparr>data := (data ?b)[k := [fst (vs ! k)]]\<rparr>,
         ?w\<lparr>data := (data ?w)[k := snd (vs ! k)]\<rparr>, s')"
    using assms(1,2,5) k rows len
    by (intro fill_neuron_reads [OF _ _ _ _ r]) (simp_all add: bk)
  have upd: "(take k (map (\<lambda>v. [fst v]) vs) @ drop k (data b))[k := [fst (vs ! k)]]
           = take (Suc k) (map (\<lambda>v. [fst v]) vs) @ drop (Suc k) (data b)"
      "(take k (map snd vs) @ drop k (data w))[k := snd (vs ! k)]
           = take (Suc k) (map snd vs) @ drop (Suc k) (data w)"
    using take_drop_update [of k "map (\<lambda>v. [fst v]) vs" "data b"]
      take_drop_update [of k "map snd vs" "data w"] assms(1,2,5) k
    by simp_all
  have "fill_layer rd (Suc k) n_prev (b, w, s)
      = fill_neuron rd n_prev k (fill_layer rd k n_prev (b, w, s))"
    by (simp add: fill_layer_def)
  then show ?case
    using step len by (simp add: IH upd)
qed

lemma fill_layer_reads:
  assumes "length (data b) = n" "length (data w) = n"
    and "\<forall>r \<in> set (data b). length r = 1" "\<forall>r \<in> set (data w). length r = n_prev"
    and "length vs = n" "\<forall>v \<in> set vs. length (snd v) = n_prev"
    and "reads rd s (flat vs) s'"
  shows "fill_layer rd n n_prev (b, w, s)
       = (b\<lparr>data := map (\<lambda>v. [fst v]) vs\<rparr>, w\<lparr>data := map snd vs\<rparr>, s')"
  using fill_layer_steps [OF assms(1-6), of n rd s s'] assms(1,2,5,7) by simp

lemma fill_parameters_steps:
  assumes "length (biases net) = m" "length (weights net) = m" "length vss = m"
    and "\<forall>l<m. length (data (biases net ! l)) = nat (ns ! (l + 1))
             \<and> (\<forall>r \<in> set (data (biases net ! l)). length r = 1)
             \<and> length (data (weights net ! l)) = nat (ns ! (l + 1))
             \<and> (\<forall>r \<in> set (data (weights net ! l)). length r = nat (ns ! l))
             \<and> length (vss ! l) = nat (ns ! (l + 1))
             \<and> (\<forall>v \<in> set (vss ! l). length (snd v) = nat (ns ! l))"
    and "k \<le> m" "reads rd s (concat (map flat (take k vss))) s'"
  shows "fill_parameters rd ns k (net, s)
       = (net\<lparr>biases := take k (map2 (\<lambda>b vs. b\<lparr>data := map (\<lambda>v. [fst v]) vs\<rparr>) (biases net) vss)
                           @ drop k (biases net),
               weights := take k (map2 (\<lambda>w vs. w\<lparr>data := map snd vs\<rparr>) (weights net) vss)
                           @ drop k (weights net)\<rparr>, s')"
  using assms(5,6)
proof (induction k arbitrary: s')
  case 0
  then show ?case by (simp add: fill_parameters_def)
next
  case (Suc k)
  then have k: "k < m" by simp
  let ?TB = "map2 (\<lambda>b vs. b\<lparr>data := map (\<lambda>v. [fst v]) vs\<rparr>) (biases net) vss"
  let ?TW = "map2 (\<lambda>w vs. w\<lparr>data := map snd vs\<rparr>) (weights net) vss"
  from Suc.prems(2) k assms(3) obtain s1 where s1: "reads rd s (concat (map flat (take k vss))) s1"
    and r: "reads rd s1 (flat (vss ! k)) s'"
    by (auto simp: take_Suc_conv_app_nth reads_append)
  have IH: "fill_parameters rd ns k (net, s)
       = (net\<lparr>biases := take k ?TB @ drop k (biases net),
               weights := take k ?TW @ drop k (weights net)\<rparr>, s1)"
    using Suc.IH [OF _ s1] k by simp
  have nk: "(take k ?TB @ drop k (biases net)) ! k = biases net ! k"
      "(take k ?TW @ drop k (weights net)) ! k = weights net ! k"
    using assms(1-3) k by (simp_all add: nth_append)
  have layer: "fill_layer rd (nat (ns ! (k + 1))) (nat (ns ! k)) (biases net ! k, weights net ! k, s1)
      = ((biases net ! k)\<lparr>data := map (\<lambda>v. [fst v]) (vss ! k)\<rparr>,
         (weights net ! k)\<lparr>data := map snd (vss ! k)\<rparr>, s')"
    using assms(4) k by (intro fill_layer_reads [OF _ _ _ _ _ _ r]) simp_all
  have tk: "?TB ! k = (biases net ! k)\<lparr>data := map (\<lambda>v. [fst v]) (vss ! k)\<rparr>"
      "?TW ! k = (weights net ! k)\<lparr>data := map snd (vss ! k)\<rparr>"
    using assms(1-3) k by simp_all
  have upd: "(take k ?TB @ drop k (biases net))[k := (biases net ! k)\<lparr>data := map (\<lambda>v. [fst v]) (vss ! k)\<rparr>]
           = take (Suc k) ?TB @ drop (Suc k) (biases net)"
      "(take k ?TW @ drop k (weights net))[k := (weights net ! k)\<lparr>data := map snd (vss ! k)\<rparr>]
           = take (Suc k) ?TW @ drop (Suc k) (weights net)"
    using take_drop_update [of k ?TB "biases net"] take_drop_update [of k ?TW "weights net"]
      assms(1-3) k
    unfolding tk by simp_all
  have "fill_parameters rd ns (Suc k) (net, s)
      = (\<lambda>(net, s).
             let (b, w, s) = fill_layer rd (nat (ns ! (k + 1))) (nat (ns ! k))
                               (biases net ! k, weights net ! k, s)
             in (net\<lparr>biases := (biases net)[k := b], weights := (weights net)[k := w]\<rparr>, s))
          (fill_parameters rd ns k (net, s))"
    by (simp add: fill_parameters_def)
  also have "\<dots> = (net\<lparr>biases := take (Suc k) ?TB @ drop (Suc k) (biases net),
               weights := take (Suc k) ?TW @ drop (Suc k) (weights net)\<rparr>, s')"
    using layer upd by (simp add: IH nk)
  finally show ?case .
qed

lemma fill_parameters_reads:
  assumes "length (biases net) = m" "length (weights net) = m" "length vss = m"
    and "\<forall>l<m. length (data (biases net ! l)) = nat (ns ! (l + 1))
             \<and> (\<forall>r \<in> set (data (biases net ! l)). length r = 1)
             \<and> length (data (weights net ! l)) = nat (ns ! (l + 1))
             \<and> (\<forall>r \<in> set (data (weights net ! l)). length r = nat (ns ! l))
             \<and> length (vss ! l) = nat (ns ! (l + 1))
             \<and> (\<forall>v \<in> set (vss ! l). length (snd v) = nat (ns ! l))"
    and "reads rd s (concat (map flat vss)) s'"
  shows "fill_parameters rd ns m (net, s)
       = (net\<lparr>biases := map2 (\<lambda>b vs. b\<lparr>data := map (\<lambda>v. [fst v]) vs\<rparr>) (biases net) vss,
               weights := map2 (\<lambda>w vs. w\<lparr>data := map snd vs\<rparr>) (weights net) vss\<rparr>, s')"
  using fill_parameters_steps [OF assms(1-4), of m rd s s'] assms(1,2,3,5) by simp

section \<open>Random parameters and the clock\<close>

lemma valid_network_lengths:
  assumes "valid_network net"
  shows "length (biases net) = nat (n_layers net - 1)"
    and "length (weights net) = nat (n_layers net - 1)"
  using assms by (simp_all add: valid_network_def)

lemma valid_network_layer:
  assumes "valid_network net" "l < nat (n_layers net - 1)"
  shows "nrows (biases net ! l) = net_structure net ! (l + 1)"
    and "ncols (biases net ! l) = 1"
    and "nrows (weights net ! l) = net_structure net ! (l + 1)"
    and "ncols (weights net ! l) = net_structure net ! l"
    and "length (data (biases net ! l)) = nat (net_structure net ! (l + 1))"
    and "\<forall>r \<in> set (data (biases net ! l)). length r = 1"
    and "length (data (weights net ! l)) = nat (net_structure net ! (l + 1))"
    and "\<forall>r \<in> set (data (weights net ! l)). length r = nat (net_structure net ! l)"
proof -
  have *: "wf_matrix (weights net ! l) \<and> nrows (weights net ! l) = net_structure net ! (l + 1)
         \<and> ncols (weights net ! l) = net_structure net ! l
         \<and> wf_matrix (biases net ! l) \<and> nrows (biases net ! l) = net_structure net ! (l + 1)
         \<and> ncols (biases net ! l) = 1"
    using assms by (simp add: valid_network_def list_all_iff)
  then show "nrows (biases net ! l) = net_structure net ! (l + 1)" "ncols (biases net ! l) = 1"
    "nrows (weights net ! l) = net_structure net ! (l + 1)"
    "ncols (weights net ! l) = net_structure net ! l"
    by simp_all
  from * show "length (data (biases net ! l)) = nat (net_structure net ! (l + 1))"
    "\<forall>r \<in> set (data (biases net ! l)). length r = 1"
    "length (data (weights net ! l)) = nat (net_structure net ! (l + 1))"
    "\<forall>r \<in> set (data (weights net ! l)). length r = nat (net_structure net ! l)"
    by (auto simp: wf_matrix_def list_all_iff)
qed

lemma reads_total:
  "\<exists>xs s'. length xs = n \<and> reads (\<lambda>old. g) s xs s'"
proof (induction n arbitrary: s)
  case 0
  show ?case by (intro exI [of _ "[]"] exI [of _ s]) simp
next
  case (Suc n)
  obtain x s1 where g: "g s = (x, s1)" by (cases "g s")
  from Suc [of s1] obtain xs s' where "length xs = n" "reads (\<lambda>old. g) s1 xs s'" by blast
  then have "length (x # xs) = Suc n \<and> reads (\<lambda>old. g) s (x # xs) s'"
    using g by simp
  then show ?case by blast
qed

lemma reads_layer_total:
  "\<exists>vs s'. length vs = n \<and> (\<forall>v \<in> set vs. length (snd v) = p) \<and> reads (\<lambda>old. g) s (flat vs) s'"
proof (induction n arbitrary: s)
  case 0
  show ?case by (intro exI [of _ "[]"] exI [of _ s]) (simp add: flat_def)
next
  case (Suc n)
  obtain ys s1 where ys: "length ys = Suc p" "reads (\<lambda>old. g) s ys s1"
    using reads_total [of "Suc p" g s] by blast
  then obtain x xs where x: "ys = x # xs" "length xs = p" by (cases ys) auto
  from Suc [of s1] obtain vs s' where vs: "length vs = n" "\<forall>v \<in> set vs. length (snd v) = p"
    "reads (\<lambda>old. g) s1 (flat vs) s'" by blast
  have "flat ((x, xs) # vs) = ys @ flat vs" by (simp add: flat_def x)
  then have "reads (\<lambda>old. g) s (flat ((x, xs) # vs)) s'"
    using ys(2) vs(3) reads_append by metis
  then have "length ((x, xs) # vs) = Suc n \<and> (\<forall>v \<in> set ((x, xs) # vs). length (snd v) = p)
      \<and> reads (\<lambda>old. g) s (flat ((x, xs) # vs)) s'"
    using vs x by simp
  then show ?case by blast
qed

lemma reads_network_total:
  "\<exists>vss s'. length vss = m
       \<and> (\<forall>l<m. length (vss ! l) = nat (ns ! (l + 1))
                \<and> (\<forall>v \<in> set (vss ! l). length (snd v) = nat (ns ! l)))
       \<and> reads (\<lambda>old. g) s (concat (map flat vss)) s'"
proof (induction m)
  case 0
  show ?case by (intro exI [of _ "[]"] exI [of _ s]) simp
next
  case (Suc m)
  then obtain vss s1 where vss: "length vss = m"
    "\<forall>l<m. length (vss ! l) = nat (ns ! (l + 1))
                \<and> (\<forall>v \<in> set (vss ! l). length (snd v) = nat (ns ! l))"
    "reads (\<lambda>old. g) s (concat (map flat vss)) s1" by blast
  obtain vs s' where vs: "length vs = nat (ns ! (m + 1))"
    "\<forall>v \<in> set vs. length (snd v) = nat (ns ! m)" "reads (\<lambda>old. g) s1 (flat vs) s'"
    using reads_layer_total [of "nat (ns ! (m + 1))" "nat (ns ! m)" g s1] by blast
  have "reads (\<lambda>old. g) s (concat (map flat (vss @ [vs]))) s'"
    using vss(3) vs(3) by (auto simp: reads_append)
  moreover have "\<forall>l<Suc m. length ((vss @ [vs]) ! l) = nat (ns ! (l + 1))
                \<and> (\<forall>v \<in> set ((vss @ [vs]) ! l). length (snd v) = nat (ns ! l))"
    using vss(1,2) vs(1,2) by (auto simp: nth_append less_Suc_eq)
  moreover have "length (vss @ [vs]) = Suc m" using vss(1) by simp
  ultimately show ?case by blast
qed

lemma matrix_data_update_eq:
  fixes x y :: "'a matrix_double"
  shows "nrows x = nrows y \<Longrightarrow> ncols x = ncols y \<Longrightarrow> x\<lparr>data := d\<rparr> = y\<lparr>data := d\<rparr>"
  by (cases x, cases y) simp

lemma fill_parameters_valid:
  assumes "valid_network net" and "length vss = nat (n_layers net - 1)"
    and "\<forall>l<nat (n_layers net - 1). length (vss ! l) = nat (net_structure net ! (l + 1))
                \<and> (\<forall>v \<in> set (vss ! l). length (snd v) = nat (net_structure net ! l))"
    and "reads rd s (concat (map flat vss)) s'"
  shows "fill_parameters rd (net_structure net) (nat (n_layers net - 1)) (net, s)
       = (net\<lparr>biases := map2 (\<lambda>b vs. b\<lparr>data := map (\<lambda>v. [fst v]) vs\<rparr>) (biases net) vss,
               weights := map2 (\<lambda>w vs. w\<lparr>data := map snd vs\<rparr>) (weights net) vss\<rparr>, s')"
proof (rule fill_parameters_reads [OF _ _ assms(2) _ assms(4)])
  show "length (biases net) = nat (n_layers net - 1)" "length (weights net) = nat (n_layers net - 1)"
    using valid_network_lengths [OF assms(1)] by simp_all
  show "\<forall>l<nat (n_layers net - 1). length (data (biases net ! l)) = nat (net_structure net ! (l + 1))
             \<and> (\<forall>r \<in> set (data (biases net ! l)). length r = 1)
             \<and> length (data (weights net ! l)) = nat (net_structure net ! (l + 1))
             \<and> (\<forall>r \<in> set (data (weights net ! l)). length r = nat (net_structure net ! l))
             \<and> length (vss ! l) = nat (net_structure net ! (l + 1))
             \<and> (\<forall>v \<in> set (vss ! l). length (snd v) = nat (net_structure net ! l))"
  proof (intro allI impI)
    fix l assume l: "l < nat (n_layers net - 1)"
    show "length (data (biases net ! l)) = nat (net_structure net ! (l + 1))
             \<and> (\<forall>r \<in> set (data (biases net ! l)). length r = 1)
             \<and> length (data (weights net ! l)) = nat (net_structure net ! (l + 1))
             \<and> (\<forall>r \<in> set (data (weights net ! l)). length r = nat (net_structure net ! l))
             \<and> length (vss ! l) = nat (net_structure net ! (l + 1))
             \<and> (\<forall>v \<in> set (vss ! l). length (snd v) = nat (net_structure net ! l))"
      using valid_network_layer(5-8) [OF assms(1) l] assms(3) l by blast
  qed
qed

lemma map2_data_update_eq:
  fixes xs ys :: "'a matrix_double list"
  assumes "length xs = length ys" 
    and "\<And>l. l < length xs \<Longrightarrow> nrows (xs ! l) = nrows (ys ! l) \<and> ncols (xs ! l) = ncols (ys ! l)"
  shows "map2 (\<lambda>b vs. b\<lparr>data := f vs\<rparr>) xs vss = map2 (\<lambda>b vs. b\<lparr>data := f vs\<rparr>) ys vss"
proof (rule nth_equalityI)
  show "length (map2 (\<lambda>b vs. b\<lparr>data := f vs\<rparr>) xs vss) = length (map2 (\<lambda>b vs. b\<lparr>data := f vs\<rparr>) ys vss)"
    using assms(1) by simp
next
  fix i assume "i < length (map2 (\<lambda>b vs. b\<lparr>data := f vs\<rparr>) xs vss)"
  then have i: "i < length xs" "i < length vss" by simp_all
  then show "map2 (\<lambda>b vs. b\<lparr>data := f vs\<rparr>) xs vss ! i = map2 (\<lambda>b vs. b\<lparr>data := f vs\<rparr>) ys vss ! i"
    using assms(1) assms(2) [OF i(1)] by (simp add: matrix_data_update_eq [of "xs ! i" "ys ! i"])
qed

text \<open>
  C9 (amended). The values \<^verbatim>\<open>set_random_weights_biases\<close> produces are a function of the
  seed that the function itself takes from the clock inside the call: two calls on
  networks of equal shape that read the same clock value fill every weight and every
  bias with the same values, whatever the entries held before. The caller supplies no
  seed.
\<close>

theorem set_random_weights_biases_same_clock:
  assumes "valid_network net1" and "valid_network net2"
    and "n_layers net1 = n_layers net2" and "net_structure net1 = net_structure net2"
  shows "set_random_weights_biases gauss0 now net1 = set_random_weights_biases gauss0 now net2"
proof -
  let ?m = "nat (n_layers net1 - 1)"
  let ?ns = "net_structure net1"
  obtain vss s' where vss: "length vss = ?m"
    "\<forall>l<?m. length (vss ! l) = nat (?ns ! (l + 1))
                \<and> (\<forall>v \<in> set (vss ! l). length (snd v) = nat (?ns ! l))"
    "reads (\<lambda>old. gauss0) now (concat (map flat vss)) s'"
    using reads_network_total [of ?m ?ns gauss0 now] by blast
  have r1: "set_random_weights_biases gauss0 now net1
      = net1\<lparr>biases := map2 (\<lambda>b vs. b\<lparr>data := map (\<lambda>v. [fst v]) vs\<rparr>) (biases net1) vss,
               weights := map2 (\<lambda>w vs. w\<lparr>data := map snd vs\<rparr>) (weights net1) vss\<rparr>"
    unfolding set_random_weights_biases_fill
    using fill_parameters_valid [OF assms(1) vss] by simp
  have vss2: "length vss = nat (n_layers net2 - 1)"
    "\<forall>l<nat (n_layers net2 - 1). length (vss ! l) = nat (net_structure net2 ! (l + 1))
                \<and> (\<forall>v \<in> set (vss ! l). length (snd v) = nat (net_structure net2 ! l))"
    using vss(1,2) unfolding assms(3,4) by simp_all
  have r2: "set_random_weights_biases gauss0 now net2
      = net2\<lparr>biases := map2 (\<lambda>b vs. b\<lparr>data := map (\<lambda>v. [fst v]) vs\<rparr>) (biases net2) vss,
               weights := map2 (\<lambda>w vs. w\<lparr>data := map snd vs\<rparr>) (weights net2) vss\<rparr>"
    unfolding set_random_weights_biases_fill
    using fill_parameters_valid [OF assms(2) vss2 vss(3) [unfolded assms(3,4)]] by simp
  have b: "map2 (\<lambda>b vs. b\<lparr>data := map (\<lambda>v. [fst v]) vs\<rparr>) (biases net1) vss
         = map2 (\<lambda>b vs. b\<lparr>data := map (\<lambda>v. [fst v]) vs\<rparr>) (biases net2) vss"
  proof (rule map2_data_update_eq)
    show "length (biases net1) = length (biases net2)"
      using valid_network_lengths(1) [OF assms(1)] valid_network_lengths(1) [OF assms(2)] assms(3)
      by simp
    fix l assume "l < length (biases net1)"
    then have l: "l < nat (n_layers net1 - 1)" "l < nat (n_layers net2 - 1)"
      using valid_network_lengths(1) [OF assms(1)] assms(3) by simp_all
    show "nrows (biases net1 ! l) = nrows (biases net2 ! l) \<and> ncols (biases net1 ! l) = ncols (biases net2 ! l)"
      using valid_network_layer(1,2) [OF assms(1) l(1)] valid_network_layer(1,2) [OF assms(2) l(2)]
        assms(4) by simp
  qed
  have w: "map2 (\<lambda>w vs. w\<lparr>data := map snd vs\<rparr>) (weights net1) vss
         = map2 (\<lambda>w vs. w\<lparr>data := map snd vs\<rparr>) (weights net2) vss"
  proof (rule map2_data_update_eq)
    show "length (weights net1) = length (weights net2)"
      using valid_network_lengths(2) [OF assms(1)] valid_network_lengths(2) [OF assms(2)] assms(3)
      by simp
    fix l assume "l < length (weights net1)"
    then have l: "l < nat (n_layers net1 - 1)" "l < nat (n_layers net2 - 1)"
      using valid_network_lengths(2) [OF assms(1)] assms(3) by simp_all
    show "nrows (weights net1 ! l) = nrows (weights net2 ! l) \<and> ncols (weights net1 ! l) = ncols (weights net2 ! l)"
      using valid_network_layer(3,4) [OF assms(1) l(1)] valid_network_layer(3,4) [OF assms(2) l(2)]
        assms(4) by simp
  qed
  have eq: "net1\<lparr>biases := B, weights := W\<rparr> = net2\<lparr>biases := B, weights := W\<rparr>" for B W
    using assms(3,4) by (cases net1, cases net2) simp
  show ?thesis
    unfolding r1 r2 b w by (rule eq)
qed

theorem set_random_weights_biases_same_clock_witness:
  "valid_network (\<lparr>n_layers = 2, net_structure = [2, 1],
        weights = [\<lparr>nrows = 1, ncols = 2, data = [[1, 2]]\<rparr>],
        biases = [\<lparr>nrows = 1, ncols = 1, data = [[3]]\<rparr>]\<rparr> :: real network)
   \<and> valid_network (\<lparr>n_layers = 2, net_structure = [2, 1],
        weights = [\<lparr>nrows = 1, ncols = 2, data = [[10, 20]]\<rparr>],
        biases = [\<lparr>nrows = 1, ncols = 1, data = [[30]]\<rparr>]\<rparr> :: real network)
   \<and> set_random_weights_biases (\<lambda>seed. (real_of_int seed, seed + 1)) 5
        \<lparr>n_layers = 2, net_structure = [2, 1],
         weights = [\<lparr>nrows = 1, ncols = 2, data = [[1, 2]]\<rparr>],
         biases = [\<lparr>nrows = 1, ncols = 1, data = [[3]]\<rparr>]\<rparr>
     = set_random_weights_biases (\<lambda>seed. (real_of_int seed, seed + 1)) 5
        \<lparr>n_layers = 2, net_structure = [2, 1],
         weights = [\<lparr>nrows = 1, ncols = 2, data = [[10, 20]]\<rparr>],
         biases = [\<lparr>nrows = 1, ncols = 1, data = [[30]]\<rparr>]\<rparr>
   \<and> set_random_weights_biases (\<lambda>seed. (real_of_int seed, seed + 1)) 5
        \<lparr>n_layers = 2, net_structure = [2, 1],
         weights = [\<lparr>nrows = 1, ncols = 2, data = [[10, 20]]\<rparr>],
         biases = [\<lparr>nrows = 1, ncols = 1, data = [[30]]\<rparr>]\<rparr>
     = \<lparr>n_layers = 2, net_structure = [2, 1],
         weights = [\<lparr>nrows = 1, ncols = 2, data = [[6, 7]]\<rparr>],
         biases = [\<lparr>nrows = 1, ncols = 1, data = [[5]]\<rparr>]\<rparr>"
proof -
  let ?N1 = "\<lparr>n_layers = 2, net_structure = [2, 1],
        weights = [\<lparr>nrows = 1, ncols = 2, data = [[1, 2]]\<rparr>],
        biases = [\<lparr>nrows = 1, ncols = 1, data = [[3]]\<rparr>]\<rparr> :: real network"
  let ?N2 = "\<lparr>n_layers = 2, net_structure = [2, 1],
        weights = [\<lparr>nrows = 1, ncols = 2, data = [[10, 20]]\<rparr>],
        biases = [\<lparr>nrows = 1, ncols = 1, data = [[30]]\<rparr>]\<rparr> :: real network"
  have v1: "valid_network ?N1" and v2: "valid_network ?N2"
    by (simp_all add: valid_network_def wf_matrix_def)
  have run: "set_random_weights_biases (\<lambda>seed. (real_of_int seed, seed + 1)) 5 ?N2
     = \<lparr>n_layers = 2, net_structure = [2, 1],
         weights = [\<lparr>nrows = 1, ncols = 2, data = [[6, 7]]\<rparr>],
         biases = [\<lparr>nrows = 1, ncols = 1, data = [[5]]\<rparr>]\<rparr>"
    by (simp add: set_random_weights_biases_def set_entry_def numeral_2_eq_2)
  show ?thesis
    using v1 v2 run
      set_random_weights_biases_same_clock [OF v1 v2, of "\<lambda>seed. (real_of_int seed, seed + 1)" 5]
    by simp
qed

text \<open>
  C9 (as stated, refuted). The claim has the values depend on a seed state that the
  caller supplies. \<^verbatim>\<open>set_random_weights_biases\<close> takes the network alone and seeds the
  sampler from the clock, so two calls on the same network at the clock values \<open>0\<close> and
  \<open>1\<close> fill it differently, here for a sampler that returns its seed as the deviate and
  then counts the seed up.
\<close>

theorem set_random_weights_biases_clock_counterexample:
  "set_random_weights_biases (\<lambda>seed. (real_of_int seed, seed + 1)) 0
        \<lparr>n_layers = 2, net_structure = [2, 1],
         weights = [\<lparr>nrows = 1, ncols = 2, data = [[1, 2]]\<rparr>],
         biases = [\<lparr>nrows = 1, ncols = 1, data = [[3]]\<rparr>]\<rparr>
   \<noteq> set_random_weights_biases (\<lambda>seed. (real_of_int seed, seed + 1)) 1
        \<lparr>n_layers = 2, net_structure = [2, 1],
         weights = [\<lparr>nrows = 1, ncols = 2, data = [[1, 2]]\<rparr>],
         biases = [\<lparr>nrows = 1, ncols = 1, data = [[3]]\<rparr>]\<rparr>"
  by (simp add: set_random_weights_biases_def set_entry_def numeral_2_eq_2)

section \<open>Persistence: loading what was saved\<close>

lemma length_le_bytes: "length (le_bytes k v) = k"
  by (induction k arbitrary: v) simp_all

lemma le_value_le_bytes: "v < 256 ^ k \<Longrightarrow> le_value (le_bytes k v) = v"
proof (induction k arbitrary: v)
  case 0
  then show ?case by simp
next
  case (Suc k)
  then have "v div 256 < 256 ^ k"
    by (simp add: less_mult_imp_div_less mult.commute)
  then have "le_value (le_bytes k (v div 256)) = v div 256" by (rule Suc.IH)
  moreover have "unat (word_of_nat (v mod 256) :: byte) = v mod 256"
    by (simp add: unat_of_nat)
  ultimately show ?case by simp
qed

lemma fread_double_fwrite_double:
  "fread_double old (fwrite_double x @ rest) = (x, rest)"
proof -
  have "unat x < 256 ^ 8"
    using unsigned_less [of x, where 'a = nat] by simp
  then show ?thesis
    by (simp add: fread_double_def fwrite_double_def length_le_bytes le_value_le_bytes)
qed

lemma fread_int_fwrite_int:
  assumes "int32 x"
  shows "fread_int old (fwrite_int x @ rest) = (x, rest)"
proof -
  have "unat (word_of_int x :: 32 word) < 256 ^ 4"
    using unsigned_less [of "word_of_int x :: 32 word", where 'a = nat] by simp
  moreover have "sint (word_of_int x :: 32 word) = x"
    using assms by (simp add: int32_def signed_of_int signed_take_bit_int_eq_self)
  ultimately show ?thesis
    by (simp add: fread_int_def fwrite_int_def length_le_bytes le_value_le_bytes)
qed

lemma reads_fread_double:
  "reads fread_double (concat (map fwrite_double xs) @ rest) xs rest"
  by (induction xs) (simp_all add: fread_double_fwrite_double)

lemma fread_ints_steps:
  assumes "length arr = length xs" "list_all int32 xs" "k \<le> length xs"
  shows "fread_ints k arr (concat (map fwrite_int xs) @ rest)
       = (take k xs @ drop k arr, concat (map fwrite_int (drop k xs)) @ rest)"
  using assms(3)
proof (induction k)
  case 0
  then show ?case by (simp add: fread_ints_def)
next
  case (Suc k)
  then have k: "k < length xs" by simp
  then have x: "int32 (xs ! k)"
    using assms(2) by (simp add: list_all_length)
  have d: "drop k xs = xs ! k # drop (Suc k) xs"
    using k by (simp add: Cons_nth_drop_Suc)
  have "fread_ints (Suc k) arr (concat (map fwrite_int xs) @ rest)
      = (\<lambda>(arr, s). let (v, s) = fread_int (arr ! k) s in (arr[k := v], s))
          (fread_ints k arr (concat (map fwrite_int xs) @ rest))"
    by (simp add: fread_ints_def)
  also have "\<dots> = (take (Suc k) xs @ drop (Suc k) arr,
                    concat (map fwrite_int (drop (Suc k) xs)) @ rest)"
    using Suc.IH k assms(1) take_drop_update [of k xs arr]
    by (simp add: d fread_int_fwrite_int [OF x])
  finally show ?case .
qed

lemma fread_ints_fwrite_ints:
  assumes "list_all int32 xs"
  shows "fread_ints (length xs) (replicate (length xs) ui) (concat (map fwrite_int xs) @ rest)
       = (xs, rest)"
  using fread_ints_steps [of "replicate (length xs) ui" xs "length xs" rest] assms by simp

lemma concat_map_concat:
  "concat (map f (concat xss)) = concat (map (\<lambda>xs. concat (map f xs)) xss)"
  by (induction xss) simp_all

lemma concat_map_flat:
  "concat (map f (flat vs)) = concat (map (\<lambda>v. f (fst v) @ concat (map f (snd v))) vs)"
  by (induction vs) (simp_all add: flat_def split: prod.splits)

text \<open>The values of a network in the order in which \<^verbatim>\<open>save_network\<close> writes them.\<close>

lemma save_network_values:
  assumes "length (net_structure net) = nat (n_layers net)"
  shows "save_network net
       = fwrite_int (n_layers net) @ concat (map fwrite_int (net_structure net))
         @ concat (map fwrite_double (concat (map flat
             (map (\<lambda>l. map (\<lambda>i. (data (biases net ! l) ! i ! 0,
                                   map (\<lambda>j. data (weights net ! l) ! i ! j)
                                       [0..<nat (net_structure net ! l)]))
                            [0..<nat (net_structure net ! (l + 1))])
                  [0..<nat (n_layers net - 1)]))))"
proof -
  have "map (\<lambda>i. fwrite_int (net_structure net ! i)) [0..<nat (n_layers net)]
      = map fwrite_int (net_structure net)"
    using assms by (intro nth_equalityI) simp_all
  then show ?thesis
    by (simp add: save_network_def concat_map_concat concat_map_flat comp_def)
qed

lemma bias_rows:
  assumes "length d = k" "\<forall>r \<in> set d. length r = 1"
  shows "map (\<lambda>i. [d ! i ! 0]) [0..<k] = d"
proof (rule nth_equalityI)
  show "length (map (\<lambda>i. [d ! i ! 0]) [0..<k]) = length d" using assms(1) by simp
next
  fix i assume "i < length (map (\<lambda>i. [d ! i ! 0]) [0..<k])"
  then have i: "i < length d" using assms(1) by simp
  then have "length (d ! i) = 1" using assms(2) by simp
  then obtain y where "d ! i = [y]" by (cases "d ! i") auto
  then show "map (\<lambda>i. [d ! i ! 0]) [0..<k] ! i = d ! i" using i assms(1) by simp
qed

lemma weight_rows:
  assumes "length d = k" "\<forall>r \<in> set d. length r = p"
  shows "map (\<lambda>i. map (\<lambda>j. d ! i ! j) [0..<p]) [0..<k] = d"
proof (rule nth_equalityI)
  show "length (map (\<lambda>i. map (\<lambda>j. d ! i ! j) [0..<p]) [0..<k]) = length d" using assms(1) by simp
next
  fix i assume "i < length (map (\<lambda>i. map (\<lambda>j. d ! i ! j) [0..<p]) [0..<k])"
  then have i: "i < length d" using assms(1) by simp
  then have "length (d ! i) = p" using assms(2) by simp
  then have "map (\<lambda>j. d ! i ! j) [0..<p] = d ! i" by (auto intro: nth_equalityI)
  then show "map (\<lambda>i. map (\<lambda>j. d ! i ! j) [0..<p]) [0..<k] ! i = d ! i" using i assms(1) by simp
qed

lemma matrix_double_eqI:
  fixes x y :: "'a matrix_double"
  shows "nrows x = nrows y \<Longrightarrow> ncols x = ncols y \<Longrightarrow> data x = data y \<Longrightarrow> x = y"
  by (cases x, cases y) simp

lemma network_eqI:
  fixes x y :: "'a network"
  shows "n_layers x = n_layers y \<Longrightarrow> net_structure x = net_structure y
    \<Longrightarrow> weights x = weights y \<Longrightarrow> biases x = biases y \<Longrightarrow> x = y"
  by (cases x, cases y) simp

lemma create_network_layer:
  assumes "l < nat (n - 1)"
  shows "biases (create_network u n ns) ! l = alloc_matrix_double u (ns ! (l + 1)) 1"
    and "weights (create_network u n ns) ! l = alloc_matrix_double u (ns ! (l + 1)) (ns ! l)"
  using assms by (simp_all add: create_network_def)

lemma create_network_lengths:
  "length (biases (create_network u n ns)) = nat (n - 1)"
  "length (weights (create_network u n ns)) = nat (n - 1)"
  by (simp_all add: create_network_def)

text \<open>
  C2. For every valid network (at least two layers, positive layer sizes, weights and
  biases of the prescribed shapes; layer count and sizes being values of C's \<^verbatim>\<open>int\<close>),
  \<^verbatim>\<open>load_network\<close> applied to the bytes \<^verbatim>\<open>save_network\<close> writes returns the network
  itself: the same \<^verbatim>\<open>n_layers\<close>, the same \<^verbatim>\<open>net_structure\<close>, and every weight and bias with
  the same 64 bits.
\<close>

theorem load_network_save_network:
  assumes "valid_network net" and "int32 (n_layers net)" and "list_all int32 (net_structure net)"
  shows "load_network u ui (save_network net) = Some net"
proof -
  let ?n = "n_layers net"
  let ?ns = "net_structure net"
  let ?m = "nat (?n - 1)"
  let ?vss = "map (\<lambda>l. map (\<lambda>i. (data (biases net ! l) ! i ! 0,
                                   map (\<lambda>j. data (weights net ! l) ! i ! j) [0..<nat (?ns ! l)]))
                            [0..<nat (?ns ! (l + 1))])
                  [0..<?m]"
  let ?body = "concat (map fwrite_double (concat (map flat ?vss)))"
  let ?net0 = "create_network u ?n ?ns"
  let ?B = "map2 (\<lambda>b vs. b\<lparr>data := map (\<lambda>v. [fst v]) vs\<rparr>) (biases ?net0) ?vss"
  let ?W = "map2 (\<lambda>w vs. w\<lparr>data := map snd vs\<rparr>) (weights ?net0) ?vss"
  have len: "length ?ns = nat ?n" and n2: "2 \<le> ?n"
    using assms(1) by (simp_all add: valid_network_def)
  have save: "save_network net = fwrite_int ?n @ concat (map fwrite_int ?ns) @ ?body"
    by (rule save_network_values [OF len])
  have h1: "fread_int ui (save_network net) = (?n, concat (map fwrite_int ?ns) @ ?body)"
    unfolding save by (rule fread_int_fwrite_int [OF assms(2)])
  have h2: "fread_ints (nat ?n) (replicate (nat ?n) ui) (concat (map fwrite_int ?ns) @ ?body)
          = (?ns, ?body)"
    using fread_ints_fwrite_ints [OF assms(3), of ui ?body] len by simp
  have rd: "reads fread_double ?body (concat (map flat ?vss)) []"
    using reads_fread_double [of "concat (map flat ?vss)" "[]"] by simp
  have fill: "fill_parameters fread_double ?ns ?m (?net0, ?body)
            = (?net0\<lparr>biases := ?B, weights := ?W\<rparr>, [])"
  proof (rule fill_parameters_reads [OF _ _ _ _ rd])
    show "length (biases ?net0) = ?m" "length (weights ?net0) = ?m" "length ?vss = ?m"
      by (simp_all add: create_network_lengths)
    show "\<forall>l<?m. length (data (biases ?net0 ! l)) = nat (?ns ! (l + 1))
             \<and> (\<forall>r \<in> set (data (biases ?net0 ! l)). length r = 1)
             \<and> length (data (weights ?net0 ! l)) = nat (?ns ! (l + 1))
             \<and> (\<forall>r \<in> set (data (weights ?net0 ! l)). length r = nat (?ns ! l))
             \<and> length (?vss ! l) = nat (?ns ! (l + 1))
             \<and> (\<forall>v \<in> set (?vss ! l). length (snd v) = nat (?ns ! l))"
      by (auto simp: create_network_layer alloc_matrix_double_def)
  qed
  have B: "?B = biases net"
  proof (rule nth_equalityI)
    show "length ?B = length (biases net)"
      using valid_network_lengths(1) [OF assms(1)] by (simp add: create_network_lengths)
  next
    fix l assume "l < length ?B"
    then have l: "l < ?m" by (simp add: create_network_lengths)
    have "map (\<lambda>i. [data (biases net ! l) ! i ! 0]) [0..<nat (?ns ! (l + 1))] = data (biases net ! l)"
      using valid_network_layer(5,6) [OF assms(1) l] by (rule bias_rows)
    then have "(alloc_matrix_double u (?ns ! (l + 1)) 1)
                 \<lparr>data := map (\<lambda>v. [fst v]) (?vss ! l)\<rparr> = biases net ! l"
      using valid_network_layer(1,2) [OF assms(1) l] l
      by (intro matrix_double_eqI) (simp_all add: alloc_matrix_double_def comp_def)
    then show "?B ! l = biases net ! l"
      using l by (simp add: create_network_lengths create_network_layer)
  qed
  have W: "?W = weights net"
  proof (rule nth_equalityI)
    show "length ?W = length (weights net)"
      using valid_network_lengths(2) [OF assms(1)] by (simp add: create_network_lengths)
  next
    fix l assume "l < length ?W"
    then have l: "l < ?m" by (simp add: create_network_lengths)
    have "map (\<lambda>i. map (\<lambda>j. data (weights net ! l) ! i ! j) [0..<nat (?ns ! l)])
              [0..<nat (?ns ! (l + 1))] = data (weights net ! l)"
      using valid_network_layer(7,8) [OF assms(1) l] by (rule weight_rows)
    then have "(alloc_matrix_double u (?ns ! (l + 1)) (?ns ! l))
                 \<lparr>data := map snd (?vss ! l)\<rparr> = weights net ! l"
      using valid_network_layer(3,4) [OF assms(1) l] l
      by (intro matrix_double_eqI) (simp_all add: alloc_matrix_double_def comp_def)
    then show "?W ! l = weights net ! l"
      using l by (simp add: create_network_lengths create_network_layer)
  qed
  have res: "?net0\<lparr>biases := ?B, weights := ?W\<rparr> = net"
    unfolding B W using len
    by (intro network_eqI) (simp_all add: create_network_def copy_array_int_def)
  show ?thesis
    unfolding load_network_fill h1 Let_def prod.case h2 fill fst_conv res
    using n2 by simp
qed

lemma le_bytes_4:
  "le_bytes 4 v = [word_of_nat (v mod 256), word_of_nat (v div 256 mod 256),
                   word_of_nat (v div 256 div 256 mod 256),
                   word_of_nat (v div 256 div 256 div 256 mod 256)]"
proof -
  have "(4::nat) = Suc (Suc (Suc (Suc 0)))" by simp
  then show ?thesis by (simp only: le_bytes.simps)
qed

lemma le_bytes_8:
  "le_bytes 8 v = [word_of_nat (v mod 256), word_of_nat (v div 256 mod 256),
                   word_of_nat (v div 256 div 256 mod 256),
                   word_of_nat (v div 256 div 256 div 256 mod 256),
                   word_of_nat (v div 256 div 256 div 256 div 256 mod 256),
                   word_of_nat (v div 256 div 256 div 256 div 256 div 256 mod 256),
                   word_of_nat (v div 256 div 256 div 256 div 256 div 256 div 256 mod 256),
                   word_of_nat (v div 256 div 256 div 256 div 256 div 256 div 256 div 256 mod 256)]"
proof -
  have "(8::nat) = Suc (Suc (Suc (Suc (Suc (Suc (Suc (Suc 0)))))))" by simp
  then show ?thesis by (simp only: le_bytes.simps)
qed

lemma upt_0_2: "[0..<2::nat] = [0, Suc 0]"
  by (simp add: numeral_2_eq_2)

lemma replicate_2: "replicate 2 x = [x, x]"
  by (simp add: numeral_2_eq_2)

theorem load_network_save_network_witness:
  "valid_network (\<lparr>n_layers = 2, net_structure = [2, 1],
        weights = [\<lparr>nrows = 1, ncols = 2, data = [[0x3FF0000000000000, 0xBFE0000000000000]]\<rparr>],
        biases = [\<lparr>nrows = 1, ncols = 1, data = [[0x4000000000000000]]\<rparr>]\<rparr> :: double network)
   \<and> int32 2 \<and> list_all int32 [2, 1]
   \<and> save_network \<lparr>n_layers = 2, net_structure = [2, 1],
        weights = [\<lparr>nrows = 1, ncols = 2, data = [[0x3FF0000000000000, 0xBFE0000000000000]]\<rparr>],
        biases = [\<lparr>nrows = 1, ncols = 1, data = [[0x4000000000000000]]\<rparr>]\<rparr>
     = [2, 0, 0, 0, 2, 0, 0, 0, 1, 0, 0, 0,
        0, 0, 0, 0, 0, 0, 0, 0x40,
        0, 0, 0, 0, 0, 0, 0xF0, 0x3F,
        0, 0, 0, 0, 0, 0, 0xE0, 0xBF]
   \<and> load_network 0 0 (save_network \<lparr>n_layers = 2, net_structure = [2, 1],
        weights = [\<lparr>nrows = 1, ncols = 2, data = [[0x3FF0000000000000, 0xBFE0000000000000]]\<rparr>],
        biases = [\<lparr>nrows = 1, ncols = 1, data = [[0x4000000000000000]]\<rparr>]\<rparr>)
     = Some \<lparr>n_layers = 2, net_structure = [2, 1],
        weights = [\<lparr>nrows = 1, ncols = 2, data = [[0x3FF0000000000000, 0xBFE0000000000000]]\<rparr>],
        biases = [\<lparr>nrows = 1, ncols = 1, data = [[0x4000000000000000]]\<rparr>]\<rparr>"
proof -
  let ?N = "\<lparr>n_layers = 2, net_structure = [2, 1],
        weights = [\<lparr>nrows = 1, ncols = 2, data = [[0x3FF0000000000000, 0xBFE0000000000000]]\<rparr>],
        biases = [\<lparr>nrows = 1, ncols = 1, data = [[0x4000000000000000]]\<rparr>]\<rparr> :: double network"
  have v: "valid_network ?N"
    by (simp add: valid_network_def wf_matrix_def)
  have i: "int32 (n_layers ?N)" "list_all int32 (net_structure ?N)"
    by (simp_all add: int32_def)
  have s: "save_network ?N
     = [2, 0, 0, 0, 2, 0, 0, 0, 1, 0, 0, 0,
        0, 0, 0, 0, 0, 0, 0, 0x40,
        0, 0, 0, 0, 0, 0, 0xF0, 0x3F,
        0, 0, 0, 0, 0, 0, 0xE0, 0xBF]"
    by (simp add: save_network_def fwrite_int_def fwrite_double_def le_bytes_4 le_bytes_8
          upt_0_2)
  show ?thesis
    using v i load_network_save_network [OF v i, of 0 0] by (simp add: s)
qed

section \<open>Persistence: streams that end early\<close>

lemma fold_invariant:
  assumes "P s" and "\<And>x s. x \<in> set xs \<Longrightarrow> P s \<Longrightarrow> P (f x s)"
  shows "P (fold f xs s)"
  using assms by (induction xs arbitrary: s) simp_all

lemma nth_list_update_beyond:
  "xs[k := v] ! l = (if l = k \<and> k < length xs then v else xs ! l)"
  by (cases "k < length xs") (auto simp: nth_list_update list_update_beyond not_less)

lemma fill_row_dims:
  "case fill_row rd k j (b, w, s) of (b', w', s') \<Rightarrow>
     b' = b \<and> nrows w' = nrows w \<and> ncols w' = ncols w"
  unfolding fill_row_def
  by (rule fold_invariant [where P = "\<lambda>(b', w', s'). b' = b \<and> nrows w' = nrows w \<and> ncols w' = ncols w"])
     (auto simp: set_entry_def split: prod.splits)

lemma fill_neuron_dims:
  "case fill_neuron rd k j (b, w, s) of (b', w', s') \<Rightarrow>
     nrows b' = nrows b \<and> ncols b' = ncols b \<and> nrows w' = nrows w \<and> ncols w' = ncols w"
  using fill_row_dims [where rd = rd and k = k and j = j and w = w
          and b = "set_entry b j 0 (fst (rd (data b ! j ! 0) s))"
          and s = "snd (rd (data b ! j ! 0) s)"]
  by (auto simp: fill_neuron_def set_entry_def split: prod.splits)

lemma fill_layer_dims:
  "case fill_layer rd n k (b, w, s) of (b', w', s') \<Rightarrow>
     nrows b' = nrows b \<and> ncols b' = ncols b \<and> nrows w' = nrows w \<and> ncols w' = ncols w"
  unfolding fill_layer_def
proof (rule fold_invariant [where P = "\<lambda>(b', w', s').
     nrows b' = nrows b \<and> ncols b' = ncols b \<and> nrows w' = nrows w \<and> ncols w' = ncols w"])
  show "case (b, w, s) of (b', w', s') \<Rightarrow>
     nrows b' = nrows b \<and> ncols b' = ncols b \<and> nrows w' = nrows w \<and> ncols w' = ncols w"
    by simp
next
  fix j and st :: "'a matrix_double \<times> 'a matrix_double \<times> 'b"
  assume "case st of (b', w', s') \<Rightarrow>
     nrows b' = nrows b \<and> ncols b' = ncols b \<and> nrows w' = nrows w \<and> ncols w' = ncols w"
  then show "case fill_neuron rd k j st of (b', w', s') \<Rightarrow>
     nrows b' = nrows b \<and> ncols b' = ncols b \<and> nrows w' = nrows w \<and> ncols w' = ncols w"
    using fill_neuron_dims [where rd = rd and k = k and j = j and b = "fst st"
        and w = "fst (snd st)" and s = "snd (snd st)"]
    by (auto split: prod.splits)
qed

lemma fill_parameters_dims:
  "case fill_parameters rd ns n (net, s) of (net', s') \<Rightarrow>
     n_layers net' = n_layers net \<and> net_structure net' = net_structure net
   \<and> length (biases net') = length (biases net) \<and> length (weights net') = length (weights net)
   \<and> (\<forall>l. nrows (biases net' ! l) = nrows (biases net ! l)
          \<and> ncols (biases net' ! l) = ncols (biases net ! l)
          \<and> nrows (weights net' ! l) = nrows (weights net ! l)
          \<and> ncols (weights net' ! l) = ncols (weights net ! l))"
  unfolding fill_parameters_def
proof (rule fold_invariant [where P = "\<lambda>(net', s').
     n_layers net' = n_layers net \<and> net_structure net' = net_structure net
   \<and> length (biases net') = length (biases net) \<and> length (weights net') = length (weights net)
   \<and> (\<forall>l. nrows (biases net' ! l) = nrows (biases net ! l)
          \<and> ncols (biases net' ! l) = ncols (biases net ! l)
          \<and> nrows (weights net' ! l) = nrows (weights net ! l)
          \<and> ncols (weights net' ! l) = ncols (weights net ! l))"])
  show "case (net, s) of (net', s') \<Rightarrow>
     n_layers net' = n_layers net \<and> net_structure net' = net_structure net
   \<and> length (biases net') = length (biases net) \<and> length (weights net') = length (weights net)
   \<and> (\<forall>l. nrows (biases net' ! l) = nrows (biases net ! l)
          \<and> ncols (biases net' ! l) = ncols (biases net ! l)
          \<and> nrows (weights net' ! l) = nrows (weights net ! l)
          \<and> ncols (weights net' ! l) = ncols (weights net ! l))"
    by simp
next
  fix k and st :: "'a network \<times> 'b"
  assume inv: "case st of (net', s') \<Rightarrow>
     n_layers net' = n_layers net \<and> net_structure net' = net_structure net
   \<and> length (biases net') = length (biases net) \<and> length (weights net') = length (weights net)
   \<and> (\<forall>l. nrows (biases net' ! l) = nrows (biases net ! l)
          \<and> ncols (biases net' ! l) = ncols (biases net ! l)
          \<and> nrows (weights net' ! l) = nrows (weights net ! l)
          \<and> ncols (weights net' ! l) = ncols (weights net ! l))"
  obtain net1 s1 where st: "st = (net1, s1)" by (cases st)
  obtain b w s2 where fl: "fill_layer rd (nat (ns ! (k + 1))) (nat (ns ! k))
      (biases net1 ! k, weights net1 ! k, s1) = (b, w, s2)"
    by (cases "fill_layer rd (nat (ns ! (k + 1))) (nat (ns ! k))
      (biases net1 ! k, weights net1 ! k, s1)")
  have d: "nrows b = nrows (biases net1 ! k)" "ncols b = ncols (biases net1 ! k)"
    "nrows w = nrows (weights net1 ! k)" "ncols w = ncols (weights net1 ! k)"
    using fill_layer_dims [where rd = rd and n = "nat (ns ! (k + 1))" and k = "nat (ns ! k)"
        and b = "biases net1 ! k" and w = "weights net1 ! k" and s = s1]
    unfolding fl by simp_all
  have "nrows ((biases net1)[k := b] ! l) = nrows (biases net ! l)
      \<and> ncols ((biases net1)[k := b] ! l) = ncols (biases net ! l)
      \<and> nrows ((weights net1)[k := w] ! l) = nrows (weights net ! l)
      \<and> ncols ((weights net1)[k := w] ! l) = ncols (weights net ! l)" for l
    using inv d unfolding st by (simp add: nth_list_update_beyond)
  then show "case (case st of (net, s) \<Rightarrow>
             let (b, w, s) = fill_layer rd (nat (ns ! (k + 1))) (nat (ns ! k))
                               (biases net ! k, weights net ! k, s)
             in (net\<lparr>biases := (biases net)[k := b], weights := (weights net)[k := w]\<rparr>, s))
        of (net', s') \<Rightarrow>
     n_layers net' = n_layers net \<and> net_structure net' = net_structure net
   \<and> length (biases net') = length (biases net) \<and> length (weights net') = length (weights net)
   \<and> (\<forall>l. nrows (biases net' ! l) = nrows (biases net ! l)
          \<and> ncols (biases net' ! l) = ncols (biases net ! l)
          \<and> nrows (weights net' ! l) = nrows (weights net ! l)
          \<and> ncols (weights net' ! l) = ncols (weights net ! l))"
    using inv unfolding st prod.case fl Let_def by simp
qed

lemma set_entry_same: "set_entry m i j (data m ! i ! j) = m"
  by (simp add: set_entry_def)

lemma fread_double_empty: "fread_double old [] = (old, [])"
  by (simp add: fread_double_def)

lemma fill_row_empty: "fill_row fread_double k j (b, w, []) = (b, w, [])"
  unfolding fill_row_def
  by (rule fold_invariant [where P = "\<lambda>st. st = (b, w, [])"])
     (simp_all add: fread_double_empty set_entry_same)

lemma fill_neuron_empty: "fill_neuron fread_double k j (b, w, []) = (b, w, [])"
  by (simp add: fill_neuron_def fread_double_empty set_entry_same fill_row_empty)

lemma fill_layer_empty: "fill_layer fread_double n k (b, w, []) = (b, w, [])"
  unfolding fill_layer_def
  by (rule fold_invariant [where P = "\<lambda>st. st = (b, w, [])"])
     (simp_all add: fill_neuron_empty)

lemma fill_parameters_empty: "fill_parameters fread_double ns n (net, []) = (net, [])"
  unfolding fill_parameters_def
  by (rule fold_invariant [where P = "\<lambda>st. st = (net, [])"])
     (simp_all add: fill_layer_empty)

text \<open>
  C8 (as stated, refuted). The stream below declares two layers of one neuron each, which
  implies a bias and a weight of eight bytes each, and ends after the bias.
  \<^verbatim>\<open>load_network\<close> reports nothing and returns a network: the bias is the one read, the
  weight is what the allocation held.
\<close>

theorem load_network_truncated_counterexample:
  "load_network 0 0 [2, 0, 0, 0, 1, 0, 0, 0, 1, 0, 0, 0, 0, 0, 0, 0, 0, 0, 0xF0, 0x3F]
     = Some \<lparr>n_layers = 2, net_structure = [1, 1],
             weights = [\<lparr>nrows = 1, ncols = 1, data = [[0]]\<rparr>],
             biases = [\<lparr>nrows = 1, ncols = 1, data = [[0x3FF0000000000000]]\<rparr>]\<rparr>"
  by (simp add: load_network_def fread_int_def fread_ints_def fread_double_def
        create_network_def copy_array_int_def alloc_matrix_double_def set_entry_def
        upt_0_2 replicate_2)

text \<open>
  C8 (amended). \<^verbatim>\<open>load_network\<close> does not notice a short stream. Whenever the stream
  holds a layer count \<open>n \<ge> 0\<close> and the \<open>n\<close> layer sizes, whatever follows them, the
  function returns a network: one with the layer count and the layer sizes of the stream
  and with weights and biases of the shapes \<^verbatim>\<open>create_network\<close> gives them. When the stream
  ends right after the layer sizes, the result is the network as \<^verbatim>\<open>create_network\<close> has
  allocated it, no entry read.
\<close>

theorem load_network_unchecked:
  assumes "int32 n" and "0 \<le> n" and "length ns = nat n" and "list_all int32 ns"
  shows "(\<exists>net. load_network u ui (fwrite_int n @ concat (map fwrite_int ns) @ rest) = Some net
            \<and> n_layers net = n \<and> net_structure net = ns
            \<and> length (weights net) = nat (n - 1) \<and> length (biases net) = nat (n - 1)
            \<and> (\<forall>l<nat (n - 1). nrows (weights net ! l) = ns ! (l + 1)
                                \<and> ncols (weights net ! l) = ns ! l
                                \<and> nrows (biases net ! l) = ns ! (l + 1)
                                \<and> ncols (biases net ! l) = 1))
       \<and> load_network u ui (fwrite_int n @ concat (map fwrite_int ns))
           = Some (create_network u n ns)"
proof -
  let ?net0 = "create_network u n ns"
  have h1: "fread_int ui (fwrite_int n @ concat (map fwrite_int ns) @ r)
          = (n, concat (map fwrite_int ns) @ r)" for r
    by (rule fread_int_fwrite_int [OF assms(1)])
  have h2: "fread_ints (nat n) (replicate (nat n) ui) (concat (map fwrite_int ns) @ r) = (ns, r)"
    for r
    using fread_ints_fwrite_ints [OF assms(4), of ui r] assms(3) by simp
  have ld: "load_network u ui (fwrite_int n @ concat (map fwrite_int ns) @ r)
          = Some (fst (fill_parameters fread_double ns (nat (n - 1)) (?net0, r)))" for r
    unfolding load_network_fill h1 Let_def prod.case h2 using assms(2) by simp
  obtain net s where f: "fill_parameters fread_double ns (nat (n - 1)) (?net0, rest) = (net, s)"
    by (cases "fill_parameters fread_double ns (nat (n - 1)) (?net0, rest)")
  have dims: "n_layers net = n_layers ?net0 \<and> net_structure net = net_structure ?net0
   \<and> length (biases net) = length (biases ?net0) \<and> length (weights net) = length (weights ?net0)
   \<and> (\<forall>l. nrows (biases net ! l) = nrows (biases ?net0 ! l)
          \<and> ncols (biases net ! l) = ncols (biases ?net0 ! l)
          \<and> nrows (weights net ! l) = nrows (weights ?net0 ! l)
          \<and> ncols (weights net ! l) = ncols (weights ?net0 ! l))"
    using fill_parameters_dims [where rd = fread_double and ns = ns and n = "nat (n - 1)"
        and net = ?net0 and s = rest]
    unfolding f by simp
  have "n_layers net = n \<and> net_structure net = ns
            \<and> length (weights net) = nat (n - 1) \<and> length (biases net) = nat (n - 1)
            \<and> (\<forall>l<nat (n - 1). nrows (weights net ! l) = ns ! (l + 1)
                                \<and> ncols (weights net ! l) = ns ! l
                                \<and> nrows (biases net ! l) = ns ! (l + 1)
                                \<and> ncols (biases net ! l) = 1)"
    using dims assms(3)
    by (simp add: create_network_lengths create_network_layer alloc_matrix_double_def)
       (simp add: create_network_def copy_array_int_def)
  moreover have "load_network u ui (fwrite_int n @ concat (map fwrite_int ns) @ rest) = Some net"
    unfolding ld f by simp
  moreover have "load_network u ui (fwrite_int n @ concat (map fwrite_int ns)) = Some ?net0"
    using ld [of "[]"] by (simp add: fill_parameters_empty)
  ultimately show ?thesis by blast
qed

theorem load_network_unchecked_witness:
  "int32 2 \<and> list_all int32 [1, 1]
   \<and> (\<exists>net. load_network 0 0 (fwrite_int 2 @ concat (map fwrite_int [1, 1]) @ [1, 2, 3]) = Some net
         \<and> n_layers net = 2 \<and> net_structure net = [1, 1]
         \<and> length (weights net) = 1 \<and> length (biases net) = 1
         \<and> nrows (weights net ! 0) = 1 \<and> ncols (weights net ! 0) = 1
         \<and> nrows (biases net ! 0) = 1 \<and> ncols (biases net ! 0) = 1)
   \<and> load_network 0 0 (fwrite_int 2 @ concat (map fwrite_int [1, 1]))
       = Some \<lparr>n_layers = 2, net_structure = [1, 1],
               weights = [\<lparr>nrows = 1, ncols = 1, data = [[0]]\<rparr>],
               biases = [\<lparr>nrows = 1, ncols = 1, data = [[0]]\<rparr>]\<rparr>
   \<and> load_network 0 0 [2, 0, 0, 0, 1, 0, 0, 0, 1, 0, 0, 0, 1, 2, 3]
       = Some \<lparr>n_layers = 2, net_structure = [1, 1],
               weights = [\<lparr>nrows = 1, ncols = 1, data = [[0]]\<rparr>],
               biases = [\<lparr>nrows = 1, ncols = 1, data = [[0x30201]]\<rparr>]\<rparr>"
proof -
  have i: "int32 2" "list_all int32 [1, 1]" by (simp_all add: int32_def)
  have p: "load_network 0 0 [2, 0, 0, 0, 1, 0, 0, 0, 1, 0, 0, 0, 1, 2, 3]
       = Some \<lparr>n_layers = 2, net_structure = [1, 1],
               weights = [\<lparr>nrows = 1, ncols = 1, data = [[0]]\<rparr>],
               biases = [\<lparr>nrows = 1, ncols = 1, data = [[0x30201]]\<rparr>]\<rparr>"
    by (simp add: load_network_def fread_int_def fread_ints_def fread_double_def
        fwrite_double_def le_bytes_8 create_network_def copy_array_int_def
        alloc_matrix_double_def set_entry_def upt_0_2 replicate_2)
  show ?thesis
    using i p load_network_unchecked [OF i(1) _ _ i(2), of 0 0 "[1, 2, 3]"]
    by (simp add: create_network_def copy_array_int_def alloc_matrix_double_def)
qed

section \<open>Shuffling the training data\<close>

lemma wf_interchange_cols:
  "wf_matrix m \<Longrightarrow> wf_matrix (interchange_cols_matrix_double m i j)"
  by (simp add: wf_matrix_def interchange_cols_matrix_double_def list_all_iff)

lemma dims_interchange_cols:
  "nrows (interchange_cols_matrix_double m i j) = nrows m"
  "ncols (interchange_cols_matrix_double m i j) = ncols m"
  by (simp_all add: interchange_cols_matrix_double_def)

lemma swap_nth:
  assumes "i < length r" "j < length r"
  shows "r[i := r ! j, j := r ! i] ! k = r ! (if k = i then j else if k = j then i else k)"
  using assms by (auto simp: nth_list_update)

lemma copy_col_interchange:
  assumes "wf_matrix m" "0 \<le> i" "i < ncols m" "0 \<le> j" "j < ncols m"
  shows "copy_col_matrix_double (interchange_cols_matrix_double m i j) k
       = copy_col_matrix_double m (if k = nat i then nat j else if k = nat j then nat i else k)"
proof -
  have len: "length (data m) = nat (nrows m)"
    and rows: "\<And>a. a < nat (nrows m) \<Longrightarrow> length (data m ! a) = nat (ncols m)"
    using assms(1) by (simp_all add: wf_matrix_def list_all_length)
  have "\<And>a. a < nat (nrows m) \<Longrightarrow>
          (data m ! a)[nat i := data m ! a ! nat j, nat j := data m ! a ! nat i] ! k
        = data m ! a ! (if k = nat i then nat j else if k = nat j then nat i else k)"
    using rows assms(2-5) by (intro swap_nth) simp_all
  then show ?thesis
    using len by (simp add: copy_col_matrix_double_def interchange_cols_matrix_double_def)
qed

lemma bij_betw_transpose:
  assumes "i < n" "j < n"
  shows "bij_betw (\<lambda>k::nat. if k = i then j else if k = j then i else k) {..<n} {..<n}"
  using assms by (intro bij_betw_byWitness [where f' = "\<lambda>k. if k = i then j else if k = j then i else k"]) auto

lemma interchange_cols_nat:
  "interchange_cols_matrix_double m i (int (nat j)) = interchange_cols_matrix_double m i j"
  by (simp add: interchange_cols_matrix_double_def)

lemma shuffle_loop_draws:
  "shuffle_loop rand_lim i (d, l, g)
     = (fold (\<lambda>(i, j) m. interchange_cols_matrix_double m (int i) (int j))
             (fisher_yates_draws rand_lim i g) d,
        fold (\<lambda>(i, j) m. interchange_cols_matrix_double m (int i) (int j))
             (fisher_yates_draws rand_lim i g) l,
        snd (snd (shuffle_loop rand_lim i (d, l, g))))"
proof (induction i arbitrary: d l g)
  case 0
  then show ?case by simp
next
  case (Suc i)
  obtain j g' where r: "rand_lim (int (Suc i)) g = (j, g')" by (cases "rand_lim (int (Suc i)) g")
  show ?case
    using Suc [of "interchange_cols_matrix_double d (int (Suc i)) j"
        "interchange_cols_matrix_double l (int (Suc i)) j" g']
    by (simp add: r interchange_cols_nat del: of_nat_Suc int_nat_eq)
qed

lemma fisher_yates_draws_indices:
  "map fst (fisher_yates_draws rand_lim i g) = rev [1..<Suc i]"
  by (induction i arbitrary: g) (simp_all add: split_beta)

lemma fisher_yates_draws_range:
  assumes "\<forall>lim g. 0 \<le> lim \<longrightarrow> 0 \<le> fst (rand_lim lim g) \<and> fst (rand_lim lim g) \<le> lim"
  shows "\<forall>(a, b) \<in> set (fisher_yates_draws rand_lim i g). b \<le> a \<and> a \<le> i"
proof (induction i arbitrary: g)
  case 0
  then show ?case by simp
next
  case (Suc i)
  obtain j g' where r: "rand_lim (int (Suc i)) g = (j, g')" by (cases "rand_lim (int (Suc i)) g")
  have "0 \<le> j \<and> j \<le> int (Suc i)"
    using assms r by (metis fst_conv of_nat_0_le_iff)
  then have "nat j \<le> Suc i" by linarith
  then show ?case using Suc [of g'] by (auto simp: r simp del: of_nat_Suc)
qed

lemma fisher_yates_perm_columns:
  assumes "wf_matrix m" and "\<forall>(a, b) \<in> set sw. int a < ncols m \<and> int b < ncols m"
    and "k < nat (ncols m)"
  shows "fisher_yates_perm sw k < nat (ncols m)
       \<and> copy_col_matrix_double
           (fold (\<lambda>(i, j) m. interchange_cols_matrix_double m (int i) (int j)) sw m) k
         = copy_col_matrix_double m (fisher_yates_perm sw k)"
  using assms
proof (induction sw arbitrary: m)
  case Nil
  then show ?case by simp
next
  case (Cons p sw)
  obtain i j where p: "p = (i, j)" by (cases p)
  let ?m = "interchange_cols_matrix_double m (int i) (int j)"
  have ij: "int i < ncols m" "int j < ncols m" using Cons.prems(2) by (simp_all add: p)
  have IH: "fisher_yates_perm sw k < nat (ncols ?m)
       \<and> copy_col_matrix_double
           (fold (\<lambda>(i, j) m. interchange_cols_matrix_double m (int i) (int j)) sw ?m) k
         = copy_col_matrix_double ?m (fisher_yates_perm sw k)"
    using Cons.prems by (intro Cons.IH) (simp_all add: wf_interchange_cols dims_interchange_cols)
  have "copy_col_matrix_double ?m (fisher_yates_perm sw k)
      = copy_col_matrix_double m (interchange_index i j (fisher_yates_perm sw k))"
    using copy_col_interchange [OF Cons.prems(1), of "int i" "int j" "fisher_yates_perm sw k"] ij
    by (simp add: interchange_index_def)
  moreover have "i < nat (ncols m)" "j < nat (ncols m)"
    using ij by linarith+
  then have "interchange_index i j (fisher_yates_perm sw k) < nat (ncols m)"
    using IH by (simp add: interchange_index_def dims_interchange_cols)
  ultimately show ?case using IH by (simp add: p)
qed

lemma fisher_yates_perm_bij:
  assumes "\<forall>(a, b) \<in> set sw. a < n \<and> b < n"
  shows "bij_betw (fisher_yates_perm sw) {..<n} {..<n}"
  using assms
proof (induction sw)
  case Nil
  show ?case by (simp add: bij_betw_def inj_on_def)
next
  case (Cons p sw)
  obtain i j where p: "p = (i, j)" by (cases p)
  have "bij_betw (interchange_index i j) {..<n} {..<n}"
    using Cons.prems bij_betw_transpose [of i n j] by (simp add: p interchange_index_def [abs_def])
  moreover have "bij_betw (fisher_yates_perm sw) {..<n} {..<n}"
    using Cons by simp
  ultimately have "bij_betw (interchange_index i j \<circ> fisher_yates_perm sw) {..<n} {..<n}"
    by (rule bij_betw_trans [rotated])
  moreover have "fisher_yates_perm (p # sw) = interchange_index i j \<circ> fisher_yates_perm sw"
    by (auto simp: p)
  ultimately show ?case by (simp only:)
qed

text \<open>
  C5. For two matrices with the same positive column count \<open>N\<close>, and a \<^verbatim>\<open>rand_lim\<close> that
  keeps the sampler contract (a number between \<open>0\<close> and the limit), \<^verbatim>\<open>shuffle_data\<close> is
  the pass of Fisher and Yates on both matrices: with the draws \<open>(i, j)\<close>, made for \<open>i\<close>
  from \<open>N - 1\<close> down to \<open>1\<close> with \<open>j\<close> between \<open>0\<close> and \<open>i\<close>, the result is the inputs and
  the labels after the interchanges of the columns \<open>i\<close> and \<open>j\<close>, the same interchanges
  in the same order in both. So one permutation of the column indices, the one the
  interchanges make up, is applied to both: afterwards column \<open>k\<close> of the inputs is the
  former column \<open>p k\<close> of the inputs and column \<open>k\<close> of the labels is the former column
  \<open>p k\<close> of the labels, for every \<open>k\<close>.
\<close>

theorem shuffle_data_alignment:
  assumes "\<forall>lim g. 0 \<le> lim \<longrightarrow> 0 \<le> fst (rand_lim lim g) \<and> fst (rand_lim lim g) \<le> lim"
    and "wf_matrix d" and "wf_matrix l" and "ncols l = ncols d" and "0 < ncols d"
  shows "map fst (fisher_yates_draws rand_lim (nat (ncols d - 1)) g) = rev [1..<nat (ncols d)]
       \<and> (\<forall>(i, j) \<in> set (fisher_yates_draws rand_lim (nat (ncols d - 1)) g). j \<le> i)
       \<and> fst (shuffle_data rand_lim d l g)
           = fold (\<lambda>(i, j) m. interchange_cols_matrix_double m (int i) (int j))
                  (fisher_yates_draws rand_lim (nat (ncols d - 1)) g) d
       \<and> fst (snd (shuffle_data rand_lim d l g))
           = fold (\<lambda>(i, j) m. interchange_cols_matrix_double m (int i) (int j))
                  (fisher_yates_draws rand_lim (nat (ncols d - 1)) g) l
       \<and> bij_betw (fisher_yates_perm (fisher_yates_draws rand_lim (nat (ncols d - 1)) g))
           {..<nat (ncols d)} {..<nat (ncols d)}
       \<and> (\<forall>k<nat (ncols d).
             copy_col_matrix_double (fst (shuffle_data rand_lim d l g)) k
               = copy_col_matrix_double d
                   (fisher_yates_perm (fisher_yates_draws rand_lim (nat (ncols d - 1)) g) k)
           \<and> copy_col_matrix_double (fst (snd (shuffle_data rand_lim d l g))) k
               = copy_col_matrix_double l
                   (fisher_yates_perm (fisher_yates_draws rand_lim (nat (ncols d - 1)) g) k))"
proof -
  let ?sw = "fisher_yates_draws rand_lim (nat (ncols d - 1)) g"
  let ?F = "\<lambda>(i, j) m. interchange_cols_matrix_double m (int i) (int j)"
  have idx: "map fst ?sw = rev [1..<nat (ncols d)]"
    using assms(5) fisher_yates_draws_indices [of rand_lim "nat (ncols d - 1)" g]
    by (simp add: Suc_nat_eq_nat_zadd1)
  have rng: "\<forall>(a, b) \<in> set ?sw. b \<le> a \<and> a \<le> nat (ncols d - 1)"
    by (rule fisher_yates_draws_range [OF assms(1)])
  have d': "fst (shuffle_data rand_lim d l g) = fold ?F ?sw d"
    and l': "fst (snd (shuffle_data rand_lim d l g)) = fold ?F ?sw l"
    unfolding shuffle_data_def by (subst shuffle_loop_draws, simp)+
  have inN: "\<forall>(a, b) \<in> set ?sw. a < nat (ncols d) \<and> b < nat (ncols d)"
    using rng assms(5) by fastforce
  have ind: "\<forall>(a, b) \<in> set ?sw. int a < ncols d \<and> int b < ncols d"
    using inN by fastforce
  have inl: "\<forall>(a, b) \<in> set ?sw. int a < ncols l \<and> int b < ncols l"
    using ind assms(4) by simp
  have cols: "copy_col_matrix_double (fold ?F ?sw d) k = copy_col_matrix_double d (fisher_yates_perm ?sw k)
      \<and> copy_col_matrix_double (fold ?F ?sw l) k = copy_col_matrix_double l (fisher_yates_perm ?sw k)"
    if "k < nat (ncols d)" for k
    using fisher_yates_perm_columns [OF assms(2) ind that]
      fisher_yates_perm_columns [OF assms(3) inl, of k] that assms(4) by simp
  show ?thesis
    unfolding d' l'
    using idx rng fisher_yates_perm_bij [OF inN] cols by fastforce
qed

theorem shuffle_data_alignment_witness:
  "fisher_yates_draws (\<lambda>lim g. (g mod (lim + 1), g + 1)) 2 (1 :: int) = [(2, 1), (1, 0)]
   \<and> shuffle_data (\<lambda>lim g. (g mod (lim + 1), g + 1))
        \<lparr>nrows = 1, ncols = 3, data = [[1, 2, 3 :: int]]\<rparr>
        \<lparr>nrows = 1, ncols = 3, data = [[10, 20, 30 :: int]]\<rparr> 1
      = (\<lparr>nrows = 1, ncols = 3, data = [[3, 1, 2]]\<rparr>,
         \<lparr>nrows = 1, ncols = 3, data = [[30, 10, 20]]\<rparr>, 3)
   \<and> map (fisher_yates_perm [(2, 1), (1, 0)]) [0, 1, 2] = [2, 0, 1]
   \<and> bij_betw (fisher_yates_perm [(2, 1), (1, 0)]) {..<3} {..<3}
   \<and> map (copy_col_matrix_double \<lparr>nrows = 1, ncols = 3, data = [[3, 1, 2 :: int]]\<rparr>) [0, 1, 2]
       = map (\<lambda>k. copy_col_matrix_double \<lparr>nrows = 1, ncols = 3, data = [[1, 2, 3]]\<rparr>
                    (fisher_yates_perm [(2, 1), (1, 0)] k)) [0, 1, 2]
   \<and> map (copy_col_matrix_double \<lparr>nrows = 1, ncols = 3, data = [[30, 10, 20 :: int]]\<rparr>) [0, 1, 2]
       = map (\<lambda>k. copy_col_matrix_double \<lparr>nrows = 1, ncols = 3, data = [[10, 20, 30]]\<rparr>
                    (fisher_yates_perm [(2, 1), (1, 0)] k)) [0, 1, 2]"
proof -
  let ?rl = "\<lambda>(lim::int) (g::int). (g mod (lim + 1), g + 1)"
  let ?d = "\<lparr>nrows = 1, ncols = 3, data = [[1, 2, 3 :: int]]\<rparr>"
  let ?l = "\<lparr>nrows = 1, ncols = 3, data = [[10, 20, 30 :: int]]\<rparr>"
  have c: "\<forall>lim g. 0 \<le> lim \<longrightarrow> 0 \<le> fst (?rl lim g) \<and> fst (?rl lim g) \<le> lim"
  proof (intro allI impI)
    fix lim g :: int assume "0 \<le> lim"
    then have "0 < lim + 1" by simp
    then have "0 \<le> g mod (lim + 1)" "g mod (lim + 1) < lim + 1"
      by (rule pos_mod_sign, rule pos_mod_bound)
    then show "0 \<le> fst (?rl lim g) \<and> fst (?rl lim g) \<le> lim" by simp
  qed
  have w: "wf_matrix ?d" "wf_matrix ?l" by (simp_all add: wf_matrix_def)
  have sw: "fisher_yates_draws ?rl 2 1 = [(2, 1), (1, 0)]"
    by (simp add: numeral_2_eq_2)
  have sh: "shuffle_data ?rl ?d ?l 1
      = (\<lparr>nrows = 1, ncols = 3, data = [[3, 1, 2]]\<rparr>,
         \<lparr>nrows = 1, ncols = 3, data = [[30, 10, 20]]\<rparr>, 3)"
    by (simp add: shuffle_data_def numeral_2_eq_2 interchange_cols_matrix_double_def)
  have p: "map (fisher_yates_perm [(2, 1), (1, 0)]) [0, 1, 2] = [2, 0, 1]"
    by (simp add: interchange_index_def)
  have n: "nat (ncols ?d - 1) = 2" "nat (ncols ?d) = 3" by simp_all
  have e: "ncols ?l = ncols ?d" "0 < ncols ?d" by simp_all
  have th: "bij_betw (fisher_yates_perm (fisher_yates_draws ?rl (nat (ncols ?d - 1)) 1))
           {..<nat (ncols ?d)} {..<nat (ncols ?d)}
       \<and> (\<forall>k<nat (ncols ?d).
             copy_col_matrix_double (fst (shuffle_data ?rl ?d ?l 1)) k
               = copy_col_matrix_double ?d
                   (fisher_yates_perm (fisher_yates_draws ?rl (nat (ncols ?d - 1)) 1) k)
           \<and> copy_col_matrix_double (fst (snd (shuffle_data ?rl ?d ?l 1))) k
               = copy_col_matrix_double ?l
                   (fisher_yates_perm (fisher_yates_draws ?rl (nat (ncols ?d - 1)) 1) k))"
    using shuffle_data_alignment [OF c w e, of 1] by blast
  from th have b: "bij_betw (fisher_yates_perm [(2, 1), (1, 0)]) {..<3} {..<3}"
    and cols: "\<forall>k<3.
         copy_col_matrix_double \<lparr>nrows = 1, ncols = 3, data = [[3, 1, 2 :: int]]\<rparr> k
           = copy_col_matrix_double \<lparr>nrows = 1, ncols = 3, data = [[1, 2, 3]]\<rparr>
               (fisher_yates_perm [(2, 1), (1, 0)] k)
       \<and> copy_col_matrix_double \<lparr>nrows = 1, ncols = 3, data = [[30, 10, 20 :: int]]\<rparr> k
           = copy_col_matrix_double \<lparr>nrows = 1, ncols = 3, data = [[10, 20, 30]]\<rparr>
               (fisher_yates_perm [(2, 1), (1, 0)] k)"
    unfolding n sw sh fst_conv snd_conv by blast+
  have k: "(0::nat) < 3" "(1::nat) < 3" "(2::nat) < 3" by simp_all
  have cd: "map (copy_col_matrix_double \<lparr>nrows = 1, ncols = 3, data = [[3, 1, 2 :: int]]\<rparr>) [0, 1, 2]
       = map (\<lambda>k. copy_col_matrix_double \<lparr>nrows = 1, ncols = 3, data = [[1, 2, 3]]\<rparr>
                    (fisher_yates_perm [(2, 1), (1, 0)] k)) [0, 1, 2]"
    using cols [rule_format, OF k(1)] cols [rule_format, OF k(2)] cols [rule_format, OF k(3)]
    by (simp only: list.map)
  have cl: "map (copy_col_matrix_double \<lparr>nrows = 1, ncols = 3, data = [[30, 10, 20 :: int]]\<rparr>) [0, 1, 2]
       = map (\<lambda>k. copy_col_matrix_double \<lparr>nrows = 1, ncols = 3, data = [[10, 20, 30]]\<rparr>
                    (fisher_yates_perm [(2, 1), (1, 0)] k)) [0, 1, 2]"
    using cols [rule_format, OF k(1)] cols [rule_format, OF k(2)] cols [rule_format, OF k(3)]
    by (simp only: list.map)
  show ?thesis
    using sw sh p b cd cl by (intro conjI) assumption+
qed

section \<open>Training leaves the network as it is\<close>





lemma cleanup_inner:
  "fold (\<lambda>l. case_sum Inl (\<lambda>x. if int l < rows then Inr x else Inl IndexOutOfBounds)) [0..<n]
   = case_sum Inl (\<lambda>x::unit. if n = 0 \<or> int n \<le> rows then Inr x else Inl IndexOutOfBounds)"
  by (induction n) (auto simp: fun_eq_iff split: sum.splits)

lemma cleanup_outer:
  "fold (\<lambda>i::nat. case_sum Inl (\<lambda>x::unit. if P then Inr x else Inl IndexOutOfBounds)) [0..<k]
   = case_sum Inl (\<lambda>x. if k = 0 \<or> P then Inr x else Inl IndexOutOfBounds)"
  by (induction k) (auto simp: fun_eq_iff split: sum.splits)

lemma backprop_cleanup_eq:
  "backprop_cleanup rows n costs
     = (case costs of None \<Rightarrow> Inl FreeUnassigned
        | Some c \<Rightarrow> if n = 0 \<or> int n \<le> rows then Inr () else Inl IndexOutOfBounds)"
  unfolding backprop_cleanup_def cleanup_inner cleanup_outer
  by (simp split: option.splits)












section \<open>The mini batch size\<close>

lemma network_backprop_no_columns:
  "ncols d \<le> 0 \<Longrightarrow> network_backprop u ex net d l = Inl FreeUnassigned"
  by (simp add: network_backprop_def backprop_cleanup_eq)

lemma extract_section_ncols:
  "ncols (extract_section_matrix_double m \<lparr>sec_a = \<lparr>c_row = r0, c_col = c0\<rparr>,
                                            sec_b = \<lparr>c_row = r1, c_col = c1\<rparr>\<rparr>) = c1 - c0"
  by (simp add: extract_section_matrix_double_def)

lemma sgd_mini_batches_zero:
  "0 < n \<Longrightarrow> sgd_mini_batches u ex n 0 0 st = Some (Inl FreeUnassigned)"
  by (subst sgd_mini_batches.simps)
     (simp add: Let_def network_backprop_no_columns extract_section_ncols)

lemma network_SGD_zero_batch_size:
  "0 < ncols d \<Longrightarrow> 0 < epochs
     \<Longrightarrow> network_SGD u ex rl net d l epochs 0 eta g = Some (Inl FreeUnassigned)"
  by (cases "nat epochs")
     (auto simp: network_SGD_def sgd_mini_batches_zero split: prod.splits)

text \<open>
  C6 (as stated, refuted). The claim has \<^verbatim>\<open>network_SGD\<close> reject or clamp a mini batch
  size that is not positive. With the size \<open>0\<close>, a corpus of two columns and one epoch the
  call neither reports an error of its own nor goes on with a clamped size: it hands the
  empty batch of the columns \<open>0\<close> to \<open>0\<close> to \<^verbatim>\<open>network_backprop\<close>, whose cleanup releases
  the costs that were never assigned, and from there C leaves the behaviour of the call
  undefined. Nothing in the loop would ever add to \<open>j\<close>.
\<close>

theorem network_SGD_zero_batch_size_counterexample:
  "network_SGD (0::real) exp (\<lambda>lim g. (0, g))
     \<lparr>n_layers = 2, net_structure = [1, 1],
      weights = [\<lparr>nrows = 1, ncols = 1, data = [[2]]\<rparr>],
      biases = [\<lparr>nrows = 1, ncols = 1, data = [[3]]\<rparr>]\<rparr>
     \<lparr>nrows = 1, ncols = 2, data = [[1, 2]]\<rparr>
     \<lparr>nrows = 1, ncols = 2, data = [[0, 1]]\<rparr> 1 0 (1 / 2) ()
   = Some (Inl FreeUnassigned)"
  by (rule network_SGD_zero_batch_size) simp_all

lemma sgd_mini_batches_whole:
  assumes "0 < n" "n \<le> m"
  shows "sgd_mini_batches u ex n m 0 st =
     (case network_backprop u ex (st_net st)
             (extract_section_matrix_double (st_data st)
                \<lparr>sec_a = \<lparr>c_row = 0, c_col = 0\<rparr>, sec_b = \<lparr>c_row = nrows (st_data st), c_col = n\<rparr>\<rparr>)
             (extract_section_matrix_double (st_labels st)
                \<lparr>sec_a = \<lparr>c_row = 0, c_col = 0\<rparr>, sec_b = \<lparr>c_row = nrows (st_labels st), c_col = n\<rparr>\<rparr>) of
        Inl e \<Rightarrow> Some (Inl e)
      | Inr net \<Rightarrow> Some (Inr (st\<lparr>st_net := net, st_batches := st_batches st @ [(0, n)]\<rparr>)))"
proof -
  have exit: "\<And>st'. sgd_mini_batches u ex n m m st' = Some (Inr st')"
    using assms by (subst sgd_mini_batches.simps) simp
  have k: "(if n < m then n else m) = n"
    using assms by simp
  show ?thesis
    using assms(1) by (subst sgd_mini_batches.simps) (simp add: Let_def exit k cong: sum.case_cong)
qed

lemma sgd_epochs_clamp:
  assumes "0 < n" "n \<le> m"
  shows "sgd_epochs u ex rl n m e st = sgd_epochs u ex rl n n e st"
proof (induction e arbitrary: st)
  case 0 then show ?case by simp
next
  case (Suc e)
  then show ?case
    by (simp add: sgd_mini_batches_whole [OF assms] sgd_mini_batches_whole [OF assms(1) order_refl]
          split: prod.splits sum.splits option.splits)
qed

lemma sgd_epochs_whole_batches:
  assumes "0 < n" "n \<le> m"
  shows "sgd_epochs u ex rl n m e st = Some (Inr st')
           \<Longrightarrow> st_batches st' = st_batches st @ replicate e (0, n)"
proof (induction e arbitrary: st)
  case 0 then show ?case by simp
next
  case (Suc e)
  then show ?case
    by (auto simp: sgd_mini_batches_whole [OF assms] Let_def replicate_append_same
          split: prod.splits sum.splits option.splits)
qed

lemma sgd_epochs_empty:
  assumes "n \<le> 0"
  shows "\<exists>st'. sgd_epochs u ex rl n m e st = Some (Inr st') \<and> st_batches st' = st_batches st"
proof (induction e arbitrary: st)
  case 0 then show ?case by simp
next
  case (Suc e)
  have exit: "\<And>st'. sgd_mini_batches u ex n m 0 st' = Some (Inr st')"
    using assms by (subst sgd_mini_batches.simps) simp
  obtain d l g where sh: "shuffle_data rl (st_data st) (st_labels st) (st_rng st) = (d, l, g)"
    by (cases "shuffle_data rl (st_data st) (st_labels st) (st_rng st)")
  from Suc [of "st\<lparr>st_data := d, st_labels := l, st_rng := g\<rparr>"]
  show ?case by (simp add: exit sh)
qed

text \<open>
  C6 (amended). \<^verbatim>\<open>network_SGD\<close> checks neither the mini batch size nor the corpus. A
  mini batch size above the column count \<open>N \<ge> 1\<close> acts as \<open>N\<close>: the call has the result
  of the call with the size \<open>N\<close>, and on completion every epoch has handed the one batch
  of the columns \<open>0\<close> to \<open>N\<close> to \<^verbatim>\<open>network_backprop\<close>. With an empty corpus (\<open>N = 0\<close>) the
  call completes and no epoch performs a mini batch, whatever the size.
\<close>

theorem network_SGD_batch_size:
  "(ncols d = 0 \<longrightarrow>
      (\<exists>st. network_SGD u ex rl net d l epochs m eta g = Some (Inr st) \<and> st_batches st = []))
   \<and> (0 < ncols d \<and> ncols d < m \<longrightarrow>
        network_SGD u ex rl net d l epochs m eta g
          = network_SGD u ex rl net d l epochs (ncols d) eta g
      \<and> (\<forall>st. network_SGD u ex rl net d l epochs m eta g = Some (Inr st) \<longrightarrow>
            st_batches st = replicate (nat epochs) (0, ncols d)))"
proof (intro conjI impI allI)
  assume "ncols d = 0"
  then show "\<exists>st. network_SGD u ex rl net d l epochs m eta g = Some (Inr st) \<and> st_batches st = []"
    using sgd_epochs_empty [of "ncols d" u ex rl m "nat epochs"
        "\<lparr>st_data = d, st_labels = l, st_net = net, st_rng = g, st_batches = []\<rparr>"]
    by (simp add: network_SGD_def)
next
  assume "0 < ncols d \<and> ncols d < m"
  then show "network_SGD u ex rl net d l epochs m eta g
          = network_SGD u ex rl net d l epochs (ncols d) eta g"
    unfolding network_SGD_def by (intro sgd_epochs_clamp) simp_all
next
  fix st
  assume "0 < ncols d \<and> ncols d < m"
    and "network_SGD u ex rl net d l epochs m eta g = Some (Inr st)"
  then show "st_batches st = replicate (nat epochs) (0, ncols d)"
    using sgd_epochs_whole_batches [of "ncols d" m u ex rl "nat epochs" _ st]
    by (simp add: network_SGD_def)
qed

theorem network_SGD_batch_size_witness:
  "network_SGD (0::real) exp (\<lambda>lim g. (0, g))
     (\<lparr>n_layers = 2, net_structure = [1, 1],
      weights = [\<lparr>nrows = 1, ncols = 1, data = [[2]]\<rparr>],
      biases = [\<lparr>nrows = 1, ncols = 1, data = [[3]]\<rparr>]\<rparr>)
     \<lparr>nrows = 1, ncols = 2, data = [[1, 2]]\<rparr>
     \<lparr>nrows = 1, ncols = 2, data = [[0, 1]]\<rparr> 1 5 (1 / 2) ()
   = Some (Inr \<lparr>st_data = \<lparr>nrows = 1, ncols = 2, data = [[2, 1]]\<rparr>,
                st_labels = \<lparr>nrows = 1, ncols = 2, data = [[1, 0]]\<rparr>,
                st_net = (\<lparr>n_layers = 2, net_structure = [1, 1],
      weights = [\<lparr>nrows = 1, ncols = 1, data = [[2]]\<rparr>],
      biases = [\<lparr>nrows = 1, ncols = 1, data = [[3]]\<rparr>]\<rparr>),
                st_rng = (), st_batches = [(0, 2)]\<rparr>)
   \<and> network_SGD (0::real) exp (\<lambda>lim g. (0, g))
     (\<lparr>n_layers = 2, net_structure = [1, 1],
      weights = [\<lparr>nrows = 1, ncols = 1, data = [[2]]\<rparr>],
      biases = [\<lparr>nrows = 1, ncols = 1, data = [[3]]\<rparr>]\<rparr>)
     \<lparr>nrows = 1, ncols = 2, data = [[1, 2]]\<rparr>
     \<lparr>nrows = 1, ncols = 2, data = [[0, 1]]\<rparr> 1 5 (1 / 2) ()
   = network_SGD (0::real) exp (\<lambda>lim g. (0, g))
     (\<lparr>n_layers = 2, net_structure = [1, 1],
      weights = [\<lparr>nrows = 1, ncols = 1, data = [[2]]\<rparr>],
      biases = [\<lparr>nrows = 1, ncols = 1, data = [[3]]\<rparr>]\<rparr>)
     \<lparr>nrows = 1, ncols = 2, data = [[1, 2]]\<rparr>
     \<lparr>nrows = 1, ncols = 2, data = [[0, 1]]\<rparr> 1 2 (1 / 2) ()
   \<and> (\<exists>st. network_SGD (0::real) exp (\<lambda>lim g. (0, g))
     (\<lparr>n_layers = 2, net_structure = [1, 1],
      weights = [\<lparr>nrows = 1, ncols = 1, data = [[2]]\<rparr>],
      biases = [\<lparr>nrows = 1, ncols = 1, data = [[3]]\<rparr>]\<rparr>)
     \<lparr>nrows = 1, ncols = 0, data = [[]]\<rparr>
     \<lparr>nrows = 1, ncols = 0, data = [[]]\<rparr> 3 (- 1) (1 / 2) () = Some (Inr st) \<and> st_batches st = [])"
proof -
  have run: "network_SGD (0::real) exp (\<lambda>lim g. (0, g))
     (\<lparr>n_layers = 2, net_structure = [1, 1],
      weights = [\<lparr>nrows = 1, ncols = 1, data = [[2]]\<rparr>],
      biases = [\<lparr>nrows = 1, ncols = 1, data = [[3]]\<rparr>]\<rparr>)
     \<lparr>nrows = 1, ncols = 2, data = [[1, 2]]\<rparr>
     \<lparr>nrows = 1, ncols = 2, data = [[0, 1]]\<rparr> 1 5 (1 / 2) ()
   = Some (Inr \<lparr>st_data = \<lparr>nrows = 1, ncols = 2, data = [[2, 1]]\<rparr>,
                st_labels = \<lparr>nrows = 1, ncols = 2, data = [[1, 0]]\<rparr>,
                st_net = (\<lparr>n_layers = 2, net_structure = [1, 1],
      weights = [\<lparr>nrows = 1, ncols = 1, data = [[2]]\<rparr>],
      biases = [\<lparr>nrows = 1, ncols = 1, data = [[3]]\<rparr>]\<rparr>),
                st_rng = (), st_batches = [(0, 2)]\<rparr>)"
    apply (simp add: network_SGD_def sgd_mini_batches_whole shuffle_data_def
        interchange_cols_matrix_double_def)
    apply (simp add: network_backprop_def extract_section_matrix_double_def forward_trace_def
        forward_step_def matrix_product_matrix_double_def set_col_matrix_double_def
        alloc_matrix_double_def copy_col_matrix_double_def backprop_cleanup_eq numeral_2_eq_2)
    done
  show ?thesis
    using run
      network_SGD_batch_size [of "\<lparr>nrows = 1, ncols = 2, data = [[1, 2]]\<rparr>" "0::real" exp
        "\<lambda>lim g. (0, g)" "(\<lparr>n_layers = 2, net_structure = [1, 1],
      weights = [\<lparr>nrows = 1, ncols = 1, data = [[2]]\<rparr>],
      biases = [\<lparr>nrows = 1, ncols = 1, data = [[3]]\<rparr>]\<rparr>)" "\<lparr>nrows = 1, ncols = 2, data = [[0, 1]]\<rparr>" 1 5 "1 / 2" "()"]
      network_SGD_batch_size [of "\<lparr>nrows = 1, ncols = 0, data = [[]]\<rparr>" "0::real" exp
        "\<lambda>lim g. (0, g)" "(\<lparr>n_layers = 2, net_structure = [1, 1],
      weights = [\<lparr>nrows = 1, ncols = 1, data = [[2]]\<rparr>],
      biases = [\<lparr>nrows = 1, ncols = 1, data = [[3]]\<rparr>]\<rparr>)" "\<lparr>nrows = 1, ncols = 0, data = [[]]\<rparr>" 3 "- 1" "1 / 2" "()"]
    by simp
qed

section \<open>The range of the output\<close>

lemmas binary64_ops = zero_binary64_def one_binary64_def uminus_binary64_def plus_binary64_def
  times_binary64_def divide_binary64_def less_eq_binary64_def less_binary64_def

lemma round_even_ge: "of_int n \<le> y \<Longrightarrow> n \<le> round_even y"
proof -
  assume "of_int n \<le> y"
  then have "n \<le> \<lfloor>y\<rfloor>" by (simp add: le_floor_iff)
  then show ?thesis by (simp add: round_even_def Let_def)
qed

lemma round_even_le: "y \<le> of_int n \<Longrightarrow> round_even y \<le> n"
proof -
  assume a: "y \<le> of_int n"
  then have f: "\<lfloor>y\<rfloor> \<le> n" by linarith
  show ?thesis
  proof (cases "\<lfloor>y\<rfloor> = n")
    case True
    then have "y = of_int n" using a by linarith
    then show ?thesis by (simp add: round_even_def)
  next
    case False
    then have "\<lfloor>y\<rfloor> + 1 \<le> n" using f by simp
    then show ?thesis by (simp add: round_even_def Let_def)
  qed
qed

lemma round_even_of_int: "round_even (of_int n) = n"
  by (simp add: round_even_def)

lemma round_even_half: 
  assumes "even n" and "of_int n \<le> y" and "y \<le> of_int n + 1 / 2"
  shows "round_even y = n"
proof -
  have "\<lfloor>y\<rfloor> = n" using assms(2,3) by linarith
  then show ?thesis using assms by (simp add: round_even_def Let_def)
qed

lemma p2_add: "2 powr of_int (a + b) = 2 powr of_int a * (2 powr of_int b :: real)"
  by (simp add: powr_add)

lemma p2_int: "0 \<le> j \<Longrightarrow> 2 powr of_int j = (of_int (2 ^ nat j) :: real)"
  by (simp add: powr_real_of_int)

lemma fl_normal:
  assumes "2 powr of_int e \<le> x" and "x < 2 powr of_int (e + 1)" and "- 1022 \<le> e"
  shows "fl x = (let r = of_int (round_even (x * 2 powr of_int (52 - e))) * 2 powr of_int (e - 52)
                 in if 2 ^ 1024 \<le> r then PlusInf else Finite r)"
proof -
  have x: "0 < x" using assms(1) by (smt (verit) powr_gt_zero)
  then have "\<lfloor>log 2 x\<rfloor> = e"
    using assms(1,2) floor_log_eq_powr_iff [of x 2 e] by simp
  then show ?thesis using x assms(3) by (simp add: fl_def Let_def max_def)
qed

lemma fl_lower:
  assumes "2 powr of_int k \<le> x" and "- 1022 \<le> k"
  shows "fl x = PlusInf \<or> (\<exists>r. fl x = Finite r \<and> 2 powr of_int k \<le> r)"
proof -
  have x: "0 < x" using assms(1) by (smt (verit) powr_gt_zero)
  define e where "e = \<lfloor>log 2 x\<rfloor>"
  have e: "2 powr of_int e \<le> x" "x < 2 powr of_int (e + 1)"
    using x floor_log_eq_powr_iff [of x 2 e] by (simp_all add: e_def)
  have "2 powr of_int k < (2::real) powr of_int (e + 1)" using assms(1) e(2) by linarith
  then have ke: "k \<le> e" by simp
  define s where "s = x * 2 powr of_int (52 - e)"
  define r :: real where "r = of_int (round_even s) * 2 powr of_int (e - 52)"
  have "2 powr of_int e * 2 powr of_int (52 - e) \<le> s"
    unfolding s_def using e(1) by (simp add: mult_right_mono)
  then have "of_int (2 ^ 52) \<le> s"
    using p2_add [of e "52 - e"] p2_int [of 52] by simp
  then have "2 ^ 52 \<le> round_even s" by (rule round_even_ge)
  then have "(2::real) ^ 52 \<le> of_int (round_even s)"
    using of_int_le_iff [of "2 ^ 52" "round_even s", where ?'a = real] by simp
  then have "2 ^ 52 * 2 powr of_int (e - 52) \<le> r"
    unfolding r_def by (simp add: mult_right_mono)
  moreover have "2 ^ 52 * 2 powr of_int (e - 52) = (2::real) powr of_int e"
    using p2_add [of 52 "e - 52"] p2_int [of 52] by simp
  moreover have "(2::real) powr of_int k \<le> 2 powr of_int e" using ke by simp
  ultimately have "2 powr of_int k \<le> r" by linarith
  moreover have "fl x = (if 2 ^ 1024 \<le> r then PlusInf else Finite r)"
    using fl_normal [OF e] ke assms(2) by (simp add: Let_def r_def s_def)
  ultimately show ?thesis by auto
qed

lemma fl_upper:
  assumes "0 < x" and "x \<le> 2 powr of_int k" and "- 1022 \<le> k" and "k < 1024"
  shows "\<exists>r. fl x = Finite r \<and> 0 \<le> r \<and> r \<le> 2 powr of_int k"
proof -
  define e where "e = max \<lfloor>log 2 x\<rfloor> (- 1022)"
  have f: "x < 2 powr of_int (\<lfloor>log 2 x\<rfloor> + 1)" "2 powr of_int \<lfloor>log 2 x\<rfloor> \<le> x"
    using assms(1) floor_log_eq_powr_iff [of x 2 "\<lfloor>log 2 x\<rfloor>"] by simp_all
  have "(2::real) powr of_int (\<lfloor>log 2 x\<rfloor> + 1) \<le> 2 powr of_int (e + 1)"
    by (simp add: e_def)
  then have xe: "x < 2 powr of_int (e + 1)" using f(1) by linarith
  have "2 powr of_int \<lfloor>log 2 x\<rfloor> \<le> (2::real) powr of_int k" using f(2) assms(2) by linarith
  then have ek: "e \<le> k" using assms(3) by (simp add: e_def)
  define m where "m = min k (e + 1)"
  have m: "e \<le> m" "m \<le> k" "x \<le> 2 powr of_int m"
    using ek xe assms(2) by (auto simp: m_def min_def)
  define s where "s = x * 2 powr of_int (52 - e)"
  define r :: real where "r = of_int (round_even s) * 2 powr of_int (e - 52)"
  have "s \<le> 2 powr of_int m * 2 powr of_int (52 - e)"
    unfolding s_def using m(3) by (simp add: mult_right_mono)
  then have "s \<le> of_int (2 ^ nat (m + 52 - e))"
    using p2_add [of m "52 - e"] p2_int [of "m + 52 - e"] m(1) by (simp add: algebra_simps)
  then have "round_even s \<le> 2 ^ nat (m + 52 - e)" by (rule round_even_le)
  then have "of_int (round_even s) \<le> (of_int (2 ^ nat (m + 52 - e)) :: real)"
    by (simp only: of_int_le_iff)
  then have "r \<le> of_int (2 ^ nat (m + 52 - e)) * 2 powr of_int (e - 52)"
    unfolding r_def by (simp add: mult_right_mono)
  moreover have "of_int (2 ^ nat (m + 52 - e)) * 2 powr of_int (e - 52) = (2::real) powr of_int m"
    using p2_add [of "m + 52 - e" "e - 52"] p2_int [of "m + 52 - e"] m(1) by simp
  moreover have "(2::real) powr of_int m \<le> 2 powr of_int k" using m(2) by simp
  ultimately have rk: "r \<le> 2 powr of_int k" by linarith
  have "(2::real) powr of_int k \<le> 2 powr of_int 1023"
    using assms(4) by (intro powr_mono) simp_all
  then have "r < 2 ^ 1024" using rk p2_int [of 1023] by simp
  moreover have "0 \<le> s" using assms(1) by (simp add: s_def)
  then have "0 \<le> round_even s" using round_even_ge [of 0 s] by simp
  then have "0 \<le> r" by (simp add: r_def)
  moreover have "fl x = (if 2 ^ 1024 \<le> r then PlusInf else Finite r)"
    using assms(1) by (simp add: fl_def Let_def r_def s_def e_def)
  ultimately show ?thesis using rk by auto
qed

lemma fl_nonneg:
  assumes "0 \<le> x"
  shows "fl x = PlusInf \<or> (\<exists>r. fl x = Finite r \<and> 0 \<le> r)"
proof (cases "x = 0")
  case True
  then show ?thesis by (simp add: fl_def)
next
  case False
  define s where "s = x * 2 powr of_int (52 - max \<lfloor>log 2 x\<rfloor> (- 1022))"
  have "0 \<le> s" using assms by (simp add: s_def)
  then have "0 \<le> round_even s" using round_even_ge [of 0 s] by simp
  then show ?thesis using False assms by (simp add: fl_def Let_def s_def)
qed

lemma fl_exact:
  assumes "x = of_int n * 2 powr of_int (e - 52)" and "2 ^ 52 \<le> n" and "n < 2 ^ 53"
    and "- 1022 \<le> e" and "e < 1024"
  shows "fl x = Finite x"
proof -
  have n: "(2::real) ^ 52 \<le> of_int n" "of_int n < (2::real) ^ 53"
    using assms(2,3) of_int_le_iff [of "2 ^ 52" n, where ?'a = real]
      of_int_less_iff [of n "2 ^ 53", where ?'a = real] by simp_all
  have "2 ^ 52 * 2 powr of_int (e - 52) \<le> x"
    unfolding assms(1) using n(1) by (simp add: mult_right_mono)
  then have lo: "2 powr of_int e \<le> x"
    using p2_add [of 52 "e - 52"] p2_int [of 52] by simp
  have "x < 2 ^ 53 * 2 powr of_int (e - 52)"
    unfolding assms(1) using n(2) by (simp add: mult_strict_right_mono)
  then have hi: "x < 2 powr of_int (e + 1)"
    using p2_add [of 53 "e - 52"] p2_int [of 53] by (simp add: add.commute)
  have "x * 2 powr of_int (52 - e) = of_int n * (2 powr of_int (e - 52) * 2 powr of_int (52 - e))"
    unfolding assms(1) by simp
  also have "\<dots> = of_int n" using p2_add [of "e - 52" "52 - e"] by simp
  finally have s: "x * 2 powr of_int (52 - e) = of_int n" .
  have "(2::real) powr of_int (e + 1) \<le> 2 powr of_int 1024"
    using assms(5) by (intro powr_mono) simp_all
  then have "x < 2 ^ 1024" using hi p2_int [of 1024] by simp
  then show ?thesis
    using fl_normal [OF lo hi assms(4)] unfolding s round_even_of_int Let_def
    by (simp add: assms(1))
qed

lemma fl_1: "fl 1 = Finite 1"
  by (rule fl_exact [of 1 "2 ^ 52" 0]) (simp_all add: powr_neg_numeral)

lemma fl_100: "fl 100 = Finite 100"
  by (rule fl_exact [of 100 "100 * 2 ^ 46" 6]) (simp_all add: powr_neg_numeral)

lemma fl_1_plus:
  assumes "0 \<le> t" and "t \<le> 2 powr of_int (- 53)"
  shows "fl (1 + t) = Finite 1"
proof -
  have h: "(2::real) powr of_int (- 53) = 1 / 2 ^ 53" by (simp add: powr_neg_numeral)
  have t: "t * 2 ^ 52 \<le> 1 / 2" using assms(2) unfolding h by (simp add: field_simps)
  have lo: "2 powr of_int 0 \<le> 1 + t" using assms(1) by simp
  have hi: "1 + t < 2 powr of_int (0 + 1)" using assms(2) unfolding h by (simp add: field_simps)
  have s: "(1 + t) * 2 powr of_int (52 - 0) = of_int (2 ^ 52) + t * 2 ^ 52"
    by (simp add: algebra_simps)
  have "round_even (of_int (2 ^ 52) + t * 2 ^ 52) = 2 ^ 52"
    using assms(1) t by (intro round_even_half) simp_all
  then show ?thesis
    using fl_normal [OF lo hi] unfolding s Let_def by (simp add: powr_neg_numeral)
qed

lemma exp_minus_100: "exp (- 100 :: real) \<le> 2 powr of_int (- 53)"
proof -
  have "(2::real) \<le> exp 1" using exp_ge_add_one_self [of "1::real"] by simp
  then have "(2::real) ^ 100 \<le> exp 1 ^ 100" by (intro power_mono) simp_all
  also have "\<dots> = exp (100 :: real)" using exp_of_nat_mult [of 100 "1::real"] by simp
  finally have "(2::real) ^ 100 \<le> exp 100" .
  then have "exp (- 100 :: real) \<le> 1 / 2 ^ 100"
    by (simp add: exp_minus field_simps)
  also have "\<dots> \<le> (2::real) powr of_int (- 53)" by (simp add: powr_neg_numeral)
  finally show ?thesis .
qed

lemma sigma_exp_saturates: "sigma exp_binary64 (Finite 100) = 1"
proof -
  obtain t where t: "fl (exp (- 100)) = Finite t" "0 \<le> t" "t \<le> 2 powr of_int (- 53)"
    using fl_upper [of "exp (- 100)" "- 53"] exp_minus_100 by auto
  show ?thesis
    by (simp add: sigma_def exp_binary64_def binary64_ops t(1) fl_1_plus [OF t(2,3)] fl_1)
qed

lemma exp_binary64_range: "exp_binary64 x = NaN \<or> 0 \<le> exp_binary64 x"
proof (cases x)
  case (Finite a)
  then show ?thesis
    using fl_nonneg [of "exp a"] by (auto simp: exp_binary64_def binary64_ops)
qed (simp_all add: exp_binary64_def binary64_ops)

lemma sigma_binary64_range:
  assumes "ex (- x) = NaN \<or> 0 \<le> ex (- x)"
  shows "if ex (- x) = NaN then sigma ex x = NaN else 0 \<le> sigma ex x \<and> sigma ex x \<le> 1"
proof (cases "ex (- x)")
  case (Finite e)
  then have e: "0 \<le> e" using assms by (simp add: binary64_ops)
  then have "2 powr of_int 0 \<le> 1 + e" by simp
  from fl_lower [OF this] consider "fl (1 + e) = PlusInf"
    | r where "fl (1 + e) = Finite r" "1 \<le> r"
    by auto
  then show ?thesis
  proof cases
    case 1
    then show ?thesis
      unfolding sigma_def Finite by (simp add: binary64_ops)
  next
    case 2
    have "0 < 1 / r" "1 / r \<le> 2 powr of_int 0" using 2(2) by simp_all
    from fl_upper [OF this] obtain q where "fl (1 / r) = Finite q" "0 \<le> q" "q \<le> 1" by auto
    then show ?thesis
      using 2 unfolding sigma_def Finite by (simp add: binary64_ops)
  qed
next
  case PlusInf
  then show ?thesis unfolding sigma_def PlusInf by (simp add: binary64_ops)
next
  case MinusInf
  then show ?thesis using assms by (simp add: binary64_ops)
next
  case NaN
  then show ?thesis unfolding sigma_def NaN by (simp add: binary64_ops)
qed

text \<open>
  C10 (as stated, refuted). The network below has two layers of one neuron each and the
  weight \<open>100\<close>. On the input \<open>1\<close> the weighted input of the output neuron is \<open>100\<close>; the
  exponential of \<open>-100\<close> is below \<open>2 ^ - 53\<close>, half the distance from \<open>1\<close> to the next
  double, so that \<open>1 + exp (- 100)\<close> is rounded to \<open>1\<close> and the output of \<^verbatim>\<open>feedforward\<close>
  is \<open>1\<close> itself, which is not below \<open>1\<close>.
\<close>

theorem feedforward_saturation_counterexample:
  "feedforward 0 exp_binary64
     \<lparr>n_layers = 2, net_structure = [1, 1],
      weights = [\<lparr>nrows = 1, ncols = 1, data = [[Finite 100]]\<rparr>],
      biases = [\<lparr>nrows = 1, ncols = 1, data = [[Finite 0]]\<rparr>]\<rparr> [Finite 1] = Inr [1]
   \<and> \<not> (1 :: binary64) < 1"
proof -
  have u: "[Suc 0..<2] = [Suc 0]" by (simp add: upt_rec)
  have "feedforward 0 exp_binary64
     \<lparr>n_layers = 2, net_structure = [1, 1],
      weights = [\<lparr>nrows = 1, ncols = 1, data = [[Finite 100]]\<rparr>],
      biases = [\<lparr>nrows = 1, ncols = 1, data = [[Finite 0]]\<rparr>]\<rparr> [Finite 1] = Inr [sigma exp_binary64 (Finite 100)]"
    by (simp add: feedforward_def forward_step_def matrix_product_matrix_double_def
        vectorized_sigma_def copy_matrix_double_def set_col_matrix_double_def
        alloc_matrix_double_def copy_col_matrix_double_def binary64_ops fl_100 u)
  then show ?thesis
    unfolding sigma_exp_saturates by (simp add: binary64_ops)
qed

text \<open>
  C10 (amended). For every valid network, which has at least two layers, and every input
  of \<open>net_structure[0]\<close> entries, every entry of the output of \<^verbatim>\<open>feedforward\<close> is the
  sigmoid \<open>1 / (1 + exp (- z))\<close> of a weighted input \<open>z\<close> of the last layer, computed in
  double precision. With an exponential that returns nothing below zero, such an entry
  lies in the closed interval from \<open>0\<close> to \<open>1\<close>, both ends included, unless the
  exponential returns not a number, and then the entry is not a number.
\<close>

theorem feedforward_sigmoid_closed_range:
  fixes net :: "binary64 network"
  assumes "valid_network net" and "length input = nat (net_structure net ! 0)"
    and "\<forall>x. ex x = NaN \<or> 0 \<le> ex x"
  shows "\<exists>zs. feedforward u ex net input = Inr (map (sigma ex) zs)
            \<and> length zs = nat (net_structure net ! (nat (n_layers net) - 1))
            \<and> (\<forall>z \<in> set zs. if ex (- z) = NaN then sigma ex z = NaN
                               else 0 \<le> sigma ex z \<and> sigma ex z \<le> 1)"
proof -
  have n: "2 \<le> n_layers net" "length (net_structure net) = nat (n_layers net)"
    using assms(1) by (simp_all add: valid_network_def)
  then obtain k where k: "nat (n_layers net) - 1 = Suc k" "k < nat (n_layers net - 1)"
    by (cases "nat (n_layers net) - 1") auto
  let ?zs = "mat_vec (data (weights net ! k)) (spec_activation ex (weights net) input k)"
  have "feedforward u ex net input = Inr (map (sigma ex) ?zs)"
    unfolding feedforward_recurrence [OF assms(1,2), of u ex] k(1) by simp
  moreover have "length ?zs = nat (net_structure net ! (nat (n_layers net) - 1))"
    unfolding k(1) using valid_network_layer(7) [OF assms(1) k(2)] by (simp add: length_mat_vec)
  moreover have "\<forall>z \<in> set ?zs. if ex (- z) = NaN then sigma ex z = NaN
                               else 0 \<le> sigma ex z \<and> sigma ex z \<le> 1"
    using assms(3) sigma_binary64_range [of ex] by blast
  ultimately show ?thesis by blast
qed

theorem feedforward_sigmoid_closed_range_witness:
  "valid_network \<lparr>n_layers = 2, net_structure = [2, 1],
      weights = [\<lparr>nrows = 1, ncols = 2, data = [[Finite 100, Finite 1]]\<rparr>],
      biases = [\<lparr>nrows = 1, ncols = 1, data = [[Finite 3]]\<rparr>]\<rparr>
   \<and> (\<forall>x. exp_binary64 x = NaN \<or> 0 \<le> exp_binary64 x)
   \<and> (\<exists>zs. feedforward 0 exp_binary64
              \<lparr>n_layers = 2, net_structure = [2, 1],
      weights = [\<lparr>nrows = 1, ncols = 2, data = [[Finite 100, Finite 1]]\<rparr>],
      biases = [\<lparr>nrows = 1, ncols = 1, data = [[Finite 3]]\<rparr>]\<rparr> [Finite 1, Finite 2]
            = Inr (map (sigma exp_binary64) zs)
          \<and> length zs = 1
          \<and> (\<forall>z \<in> set zs. if exp_binary64 (- z) = NaN then sigma exp_binary64 z = NaN
                             else 0 \<le> sigma exp_binary64 z \<and> sigma exp_binary64 z \<le> 1))
   \<and> feedforward 0 exp_binary64
        \<lparr>n_layers = 2, net_structure = [2, 1],
      weights = [\<lparr>nrows = 1, ncols = 2, data = [[Finite 100, Finite 1]]\<rparr>],
      biases = [\<lparr>nrows = 1, ncols = 1, data = [[Finite 3]]\<rparr>]\<rparr> [Finite 1, NaN]
      = Inr [NaN]"
proof -
  let ?N = "\<lparr>n_layers = 2, net_structure = [2, 1],
      weights = [\<lparr>nrows = 1, ncols = 2, data = [[Finite 100, Finite 1]]\<rparr>],
      biases = [\<lparr>nrows = 1, ncols = 1, data = [[Finite 3]]\<rparr>]\<rparr>"
  have v: "valid_network ?N"
    by (simp add: valid_network_def wf_matrix_def)
  have l: "length [Finite 1, Finite 2] = nat (net_structure ?N ! 0)" by simp
  have e: "\<forall>x. exp_binary64 x = NaN \<or> 0 \<le> exp_binary64 x"
    using exp_binary64_range by blast
  have u: "[Suc 0..<2] = [Suc 0]" by (simp add: upt_rec)
  have nan: "feedforward 0 exp_binary64 ?N [Finite 1, NaN] = Inr [NaN]"
    by (simp add: feedforward_def forward_step_def matrix_product_matrix_double_def
        vectorized_sigma_def copy_matrix_double_def set_col_matrix_double_def
        alloc_matrix_double_def copy_col_matrix_double_def sigma_def exp_binary64_def
        binary64_ops fl_100 upt_0_2 u)
  show ?thesis
    using v e nan feedforward_sigmoid_closed_range [OF v l e, of 0] by simp
qed

end
